theory Spec2Isabelle
  imports Main
begin

section \<open>JavaScript strings\<close>

text \<open>
  A JavaScript string is a sequence of UTF-16 code units. The model covers the code
  units below 256 (ISO-8859-1), which are exactly the values of HOL's 8-bit
  \<^typ>\<open>char\<close>; a \<^typ>\<open>string\<close> is the list of code units.
\<close>

text \<open>
  The code units below 256 that \<^verbatim>\<open>String.prototype.trim\<close> and the regular
  expression class \<^verbatim>\<open>\s\<close> treat as white space: TAB, LF, VT, FF, CR, SPACE
  and NO-BREAK SPACE.
\<close>

definition isWhiteSpace :: "char \<Rightarrow> bool" where
  "isWhiteSpace c \<longleftrightarrow>
     c \<in> set [CHR 0x09, CHR 0x0A, CHR 0x0B, CHR 0x0C, CHR 0x0D, CHR 0x20, CHR 0xA0]"

text \<open>\<^verbatim>\<open>s.trim()\<close>\<close>

definition trim :: "string \<Rightarrow> string" where
  "trim s = rev (dropWhile isWhiteSpace (rev (dropWhile isWhiteSpace s)))"

text \<open>
  \<^verbatim>\<open>s.toLowerCase()\<close> on code units below 256: the letters A-Z and the
  ISO-8859-1 capitals 0xC0-0xDE (without the multiplication sign 0xD7) move up by 32.
\<close>

definition lowerChar :: "char \<Rightarrow> char" where
  "lowerChar c =
     (let n = (of_char c :: nat) in
      if (65 \<le> n \<and> n \<le> 90) \<or> (192 \<le> n \<and> n \<le> 214) \<or> (216 \<le> n \<and> n \<le> 222)
      then char_of (n + 32) else c)"

definition toLowerCase :: "string \<Rightarrow> string" where
  "toLowerCase s = map lowerChar s"

text \<open>\<^verbatim>\<open>s.replace(/\s+/g, "")\<close>\<close>

definition stripWhiteSpace :: "string \<Rightarrow> string" where
  "stripWhiteSpace s = filter (\<lambda>c. \<not> isWhiteSpace c) s"

text \<open>\<^verbatim>\<open>s.startsWith('"')\<close> and \<^verbatim>\<open>s.endsWith('"')\<close>\<close>

definition startsWithQuote :: "string \<Rightarrow> bool" where
  "startsWithQuote s \<longleftrightarrow> (case s of [] \<Rightarrow> False | c # _ \<Rightarrow> c = CHR 0x22)"

definition endsWithQuote :: "string \<Rightarrow> bool" where
  "endsWithQuote s \<longleftrightarrow> s \<noteq> [] \<and> last s = CHR 0x22"

text \<open>\<^verbatim>\<open>s.slice(1, -1)\<close>: from index 1 up to, excluding, the last code unit.\<close>

definition sliceInner :: "string \<Rightarrow> string" where
  "sliceInner s = take (length s - 2) (drop 1 s)"

text \<open>
  \<^verbatim>\<open>s.replace(/""/g, '"')\<close>: the matches are found left to right and do not
  overlap.
\<close>

fun replaceDoubledQuotes :: "string \<Rightarrow> string" where
  "replaceDoubledQuotes (c # d # cs) =
     (if c = CHR 0x22 \<and> d = CHR 0x22 then CHR 0x22 # replaceDoubledQuotes cs
      else c # replaceDoubledQuotes (d # cs))"
| "replaceDoubledQuotes cs = cs"

text \<open>
  \<^verbatim>\<open>s.split(sep)\<close> for a separator of one code unit: the pieces between the
  separators, so one piece more than there are separators.
\<close>

fun splitOn :: "char \<Rightarrow> string \<Rightarrow> string list" where
  "splitOn sep [] = [[]]"
| "splitOn sep (c # cs) =
     (if c = sep then [] # splitOn sep cs
      else (case splitOn sep cs of p # ps \<Rightarrow> (c # p) # ps | [] \<Rightarrow> [[c]]))"

text \<open>
  \<^verbatim>\<open>text.split(/\r?\n/)\<close>: a line ends at LF, or at CR directly followed by
  LF; a CR elsewhere stays in its line.
\<close>

fun splitLines :: "string \<Rightarrow> string list" where
  "splitLines [] = [[]]"
| "splitLines (c # cs) =
     (if c = CHR 0x0A then [] # splitLines cs
      else if c = CHR 0x0D \<and> (case cs of d # _ \<Rightarrow> d = CHR 0x0A | [] \<Rightarrow> False)
      then [] # splitLines (tl cs)
      else (case splitLines cs of p # ps \<Rightarrow> (c # p) # ps | [] \<Rightarrow> [[c]]))"

text \<open>\<^verbatim>\<open>xs.join(sep)\<close>\<close>

fun join :: "string \<Rightarrow> string list \<Rightarrow> string" where
  "join sep [] = []"
| "join sep [x] = x"
| "join sep (x # y # ys) = x @ sep @ join sep (y # ys)"

text \<open>\<^verbatim>\<open>s.includes(sub)\<close>\<close>

fun includes_str :: "string \<Rightarrow> string \<Rightarrow> bool" where
  "includes_str [] sub \<longleftrightarrow> sub = []"
| "includes_str (c # cs) sub \<longleftrightarrow> take (length sub) (c # cs) = sub \<or> includes_str cs sub"

text \<open>\<^verbatim>\<open>a || b\<close> on strings: the empty string is falsy.\<close>

definition orElse :: "string \<Rightarrow> string \<Rightarrow> string" where
  "orElse a b = (if a = [] then b else a)"

section \<open>CSV record parser (page.tsx, lines 53-90)\<close>

text \<open>
  The loop of \<^verbatim>\<open>splitCsvLine\<close>. The remaining code units of the line stand for
  the loop index; \<open>values\<close>, \<open>current\<close> and \<open>insideQuotes\<close> are the loop's
  variables. A quote that is inside quotes and directly followed by a quote appends one
  quote and skips both; any other quote toggles \<open>insideQuotes\<close>; a comma outside
  quotes pushes \<open>current\<close>; every other code unit is appended.
\<close>

fun splitCsvLoop :: "string \<Rightarrow> string list \<Rightarrow> string \<Rightarrow> bool \<Rightarrow> string list" where
  "splitCsvLoop [] vals current insideQuotes = vals @ [current]"
| "splitCsvLoop (c # cs) vals current insideQuotes =
     (if c = CHR 0x22 then
        (case cs of
           d # ds \<Rightarrow>
             if insideQuotes \<and> d = CHR 0x22
             then splitCsvLoop ds vals (current @ [CHR 0x22]) insideQuotes
             else splitCsvLoop cs vals current (\<not> insideQuotes)
         | [] \<Rightarrow> splitCsvLoop cs vals current (\<not> insideQuotes))
      else if c = CHR 0x2C \<and> \<not> insideQuotes then splitCsvLoop cs (vals @ [current]) [] insideQuotes
      else splitCsvLoop cs vals (current @ [c]) insideQuotes)"

definition splitCsvLine :: "string \<Rightarrow> string list" where
  "splitCsvLine line = splitCsvLoop line [] [] False"

definition cleanCell :: "string \<Rightarrow> string" where
  "cleanCell v =
     (let trimmed = trim v in
      if startsWithQuote trimmed \<and> endsWithQuote trimmed
      then replaceDoubledQuotes (sliceInner trimmed)
      else trimmed)"

section \<open>Upload gateway: the route handler behind /api/indiamart\<close>

datatype AgentMode = simulate | live

text \<open>
  The handler's \<^verbatim>\<open>AgentSettings\<close>, \<^verbatim>\<open>ProductPayload\<close> and
  \<^verbatim>\<open>RequestBody\<close>: every field marked optional in the source is an option,
  \<open>None\<close> standing for \<^verbatim>\<open>undefined\<close>.
\<close>

record AgentSettings_api =
  s_apiKey :: "string option"
  s_sellerId :: "string option"
  s_baseUrl :: "string option"
  s_mode :: "AgentMode option"

record ProductPayload_api =
  p_title :: string
  p_category :: "string option"
  p_price :: "string option"
  p_currency :: "string option"
  p_unit :: "string option"
  p_stock :: "string option"
  p_minOrderQty :: "string option"
  p_keywords :: "string list option"
  p_imageUrls :: "string list option"
  p_shortDescription :: "string option"
  p_description :: "string option"
  p_features :: "string list option"
  p_packaging :: "string option"
  p_leadTime :: "string option"

record RequestBody =
  rb_settings :: "AgentSettings_api option"
  rb_product :: "ProductPayload_api option"

definition MINIMUM_FIELDS :: "string list" where
  "MINIMUM_FIELDS = [''title'', ''description'', ''shortDescription'']"

text \<open>\<^verbatim>\<open>product[field]\<close> for the keys of \<open>MINIMUM_FIELDS\<close>.\<close>

definition fieldValue :: "ProductPayload_api \<Rightarrow> string \<Rightarrow> string option" where
  "fieldValue product field =
     (if field = ''title'' then Some (p_title product)
      else if field = ''description'' then p_description product
      else if field = ''shortDescription'' then p_shortDescription product
      else None)"

definition missingFields :: "ProductPayload_api \<Rightarrow> string list" where
  "missingFields product =
     filter (\<lambda>field. case fieldValue product field of None \<Rightarrow> True | Some v \<Rightarrow> v = [])
       MINIMUM_FIELDS"

record IndiaMartPayload =
  PRODUCT_NAME :: string
  SELLER_ID :: string
  CURRENCY_TYPE :: string
  YOUR_PRICE :: string
  UNIT :: string
  MIN_ORDER_QUANTITY :: string
  PACKAGE_DETAILS :: string
  SUPPLY_ABILITY :: string
  DELIVERY_TIME :: string
  SHORT_DESC :: string
  LONG_DESC :: string
  KEY_FEATURES :: string
  KEYWORDS :: string
  IMAGE1 :: string
  IMAGE2 :: string
  IMAGE3 :: string
  CATEGORY :: string

text \<open>\<^verbatim>\<open>v ?? d\<close>\<close>

definition orDefault :: "'a option \<Rightarrow> 'a \<Rightarrow> 'a" where
  "orDefault v d = (case v of None \<Rightarrow> d | Some x \<Rightarrow> x)"

text \<open>\<^verbatim>\<open>xs?.[i] ?? ""\<close>\<close>

definition elementAt :: "string list option \<Rightarrow> nat \<Rightarrow> string" where
  "elementAt xs i =
     (case xs of None \<Rightarrow> [] | Some ys \<Rightarrow> if i < length ys then ys ! i else [])"

definition buildIndiaMartPayload ::
  "ProductPayload_api \<Rightarrow> AgentSettings_api \<Rightarrow> IndiaMartPayload" where
  "buildIndiaMartPayload product settings =
     (let featuresText = orDefault (map_option (join ''|'') (p_features product)) [] in
      \<lparr>PRODUCT_NAME = p_title product,
       SELLER_ID = orDefault (s_sellerId settings) [],
       CURRENCY_TYPE = orDefault (p_currency product) ''INR'',
       YOUR_PRICE = orDefault (p_price product) [],
       UNIT = orDefault (p_unit product) [],
       MIN_ORDER_QUANTITY = orDefault (p_minOrderQty product) [],
       PACKAGE_DETAILS = orDefault (p_packaging product) [],
       SUPPLY_ABILITY = orDefault (p_stock product) [],
       DELIVERY_TIME = orDefault (p_leadTime product) [],
       SHORT_DESC = orDefault (p_shortDescription product) [],
       LONG_DESC = orDefault (p_description product) [],
       KEY_FEATURES = featuresText,
       KEYWORDS = orDefault (map_option (join '','') (p_keywords product)) [],
       IMAGE1 = elementAt (p_imageUrls product) 0,
       IMAGE2 = elementAt (p_imageUrls product) 1,
       IMAGE3 = elementAt (p_imageUrls product) 2,
       CATEGORY = orDefault (p_category product) []\<rparr>)"

text \<open>
  The remote catalogue API as the handler sees it. The handler's one outbound call is
  \<^verbatim>\<open>fetch(endpoint, {method: "POST", headers: {"Content-Type": "application/json",
  authtoken}, body})\<close>; method and content type are fixed, so a call is its endpoint,
  its \<open>authtoken\<close> header and its body. The call either throws or returns a response;
  \<open>r_jsonError\<close> is the message of the error \<^verbatim>\<open>response.json()\<close> throws when
  the body is not JSON.
\<close>

record OutboundRequest =
  o_endpoint :: string
  o_authtoken :: string
  o_body :: IndiaMartPayload

datatype Thrown = ErrorObject string | OtherValue

record RemoteResponse =
  r_status :: nat
  r_contentType :: "string option"
  r_body :: string
  r_jsonError :: "string option"

datatype FetchResult = Threw Thrown | Responded RemoteResponse

text \<open>The decoded remote body: parsed JSON (kept as its text) or raw text.\<close>

datatype Decoded = JsonValue string | RawText string

text \<open>
  What \<^verbatim>\<open>NextResponse.json(body, {status})\<close> sends back: the four shapes of body
  the handler builds, and the status.
\<close>

datatype ResponseBody =
    ErrorBody string
  | RemoteErrorBody string nat Decoded
  | SimulatedBody IndiaMartPayload
  | SuccessBody Decoded

record HttpResponse =
  h_status :: nat
  h_body :: ResponseBody

definition normalizeSettings :: "AgentSettings_api option \<Rightarrow> AgentSettings_api" where
  "normalizeSettings settings =
     \<lparr>s_apiKey = map_option trim (Option.bind settings s_apiKey),
      s_sellerId = map_option trim (Option.bind settings s_sellerId),
      s_baseUrl = map_option trim (Option.bind settings s_baseUrl),
      s_mode = Some (orDefault (Option.bind settings s_mode) simulate)\<rparr>"

text \<open>\<^verbatim>\<open>!v\<close> for an optional string: undefined and the empty string are falsy.\<close>

definition falsy :: "string option \<Rightarrow> bool" where
  "falsy v \<longleftrightarrow> (case v of None \<Rightarrow> True | Some x \<Rightarrow> x = [])"

definition defaultEndpoint :: string where
  "defaultEndpoint = ''https://sellerapi.indiamart.com/catalog/v1/product/add''"

text \<open>
  The part of \<open>POST\<close> after the outbound call (README.md, lines 175-205): decoding the
  body throws when the content type says JSON and the body is not, and every throw ends
  in the 504 answer.
\<close>

definition thrownMessage :: "Thrown \<Rightarrow> string" where
  "thrownMessage t =
     (case t of ErrorObject m \<Rightarrow> m | OtherValue \<Rightarrow> ''Unexpected error while reaching IndiaMART.'')"

definition afterFetch :: "FetchResult \<Rightarrow> HttpResponse" where
  "afterFetch res =
     (case res of
        Threw t \<Rightarrow> \<lparr>h_status = 504, h_body = ErrorBody (thrownMessage t)\<rparr>
      | Responded response \<Rightarrow>
          (let isJson = (case r_contentType response of
                           None \<Rightarrow> False
                         | Some ct \<Rightarrow> ct \<noteq> [] \<and> includes_str ct ''application/json'');
               decoded = (if isJson
                          then (case r_jsonError response of
                                  Some m \<Rightarrow> Inl (ErrorObject m)
                                | None \<Rightarrow> Inr (JsonValue (r_body response)))
                          else Inr (RawText (r_body response)))
           in case decoded of
                Inl t \<Rightarrow> \<lparr>h_status = 504, h_body = ErrorBody (thrownMessage t)\<rparr>
              | Inr responsePayload \<Rightarrow>
                  if \<not> (200 \<le> r_status response \<and> r_status response \<le> 299)
                  then \<lparr>h_status = 502,
                        h_body = RemoteErrorBody ''IndiaMART API returned an error.''
                                   (r_status response) responsePayload\<rparr>
                  else \<lparr>h_status = 200, h_body = SuccessBody responsePayload\<rparr>))"

text \<open>
  \<open>POST\<close> (README.md, lines 106-206). The request body is \<open>None\<close> when
  \<^verbatim>\<open>request.json()\<close> throws, and otherwise an object of the declared type. The
  remote world \<open>remote\<close> answers the outbound call; the second component of the result
  lists the outbound calls the handler made.
\<close>

definition POST ::
  "(OutboundRequest \<Rightarrow> FetchResult) \<Rightarrow> RequestBody option \<Rightarrow> HttpResponse \<times> OutboundRequest list" where
  "POST remote request =
     (case request of
        None \<Rightarrow> (\<lparr>h_status = 400, h_body = ErrorBody ''Invalid JSON payload received.''\<rparr>, [])
      | Some body \<Rightarrow>
          (case rb_product body of
             None \<Rightarrow> (\<lparr>h_status = 400, h_body = ErrorBody ''Product payload not provided.''\<rparr>, [])
           | Some product \<Rightarrow>
               if missingFields product \<noteq> []
               then (\<lparr>h_status = 400,
                      h_body = ErrorBody (''Missing required product fields: ''
                                          @ join '', '' (missingFields product))\<rparr>, [])
               else
                 (let normalizedSettings = normalizeSettings (rb_settings body);
                      preparedPayload = buildIndiaMartPayload product normalizedSettings
                  in if s_mode normalizedSettings = Some simulate
                     then (\<lparr>h_status = 200, h_body = SimulatedBody preparedPayload\<rparr>, [])
                     else if falsy (s_apiKey normalizedSettings)
                     then (\<lparr>h_status = 400,
                            h_body = ErrorBody ''API key is required in live mode.''\<rparr>, [])
                     else if falsy (s_sellerId normalizedSettings)
                     then (\<lparr>h_status = 400,
                            h_body = ErrorBody ''Seller ID is required in live mode.''\<rparr>, [])
                     else
                       (let endpoint = orElse (orDefault (s_baseUrl normalizedSettings) [])
                                         defaultEndpoint;
                            call = \<lparr>o_endpoint = endpoint,
                                    o_authtoken = orDefault (s_apiKey normalizedSettings) [],
                                    o_body = preparedPayload\<rparr>
                        in (afterFetch (remote call), [call])))))"

section \<open>The console: data model (page.tsx, lines 5-46)\<close>

record AgentSettings =
  apiKey :: string
  sellerId :: string
  baseUrl :: string
  mode :: AgentMode
  autoStart :: bool

record ProductDraft =
  title :: string
  category :: string
  price :: string
  currency :: string
  unit :: string
  stock :: string
  minOrderQty :: string
  keywords_text :: string
  imageUrls :: string
  shortDescription :: string
  description :: string
  features :: string
  packaging :: string
  leadTime :: string

text \<open>
  The draft's field \<^verbatim>\<open>keywords\<close> is \<open>keywords_text\<close> here (\<open>keywords\<close> is
  reserved in theory files).
\<close>

text \<open>The queued item (\<^verbatim>\<open>ProductPayload\<close> of page.tsx); \<open>pid\<close> is its field \<^verbatim>\<open>id\<close>.\<close>

record ProductPayload =
  pid :: string
  createdAt :: nat
  payload :: ProductDraft

datatype LogLevel = info | error | success

text \<open>\<open>lid\<close> is the entry's field \<^verbatim>\<open>id\<close>.\<close>

record LogEntry =
  lid :: string
  level :: LogLevel
  headline :: string
  details :: "string option"
  timestamp :: nat

definition initialDraft :: ProductDraft where
  "initialDraft =
     \<lparr>title = [], category = [], price = [], currency = ''INR'', unit = ''Unit'', stock = [],
      minOrderQty = [], keywords_text = [], imageUrls = [], shortDescription = [], description = [],
      features = [], packaging = [], leadTime = []\<rparr>"

definition defaultSettings :: AgentSettings where
  "defaultSettings =
     \<lparr>apiKey = [], sellerId = [],
      baseUrl = ''https://sellerapi.indiamart.com/catalog/v1/product/add'',
      mode = simulate, autoStart = True\<rparr>"

section \<open>Draft normalizer (page.tsx, lines 195-217)\<close>

text \<open>\<^verbatim>\<open>text.split(sep).map((x) => x.trim()).filter(Boolean)\<close>\<close>

definition splitTrimmed :: "char \<Rightarrow> string \<Rightarrow> string list" where
  "splitTrimmed sep s = filter (\<lambda>x. x \<noteq> []) (map trim (splitOn sep s))"

text \<open>
  The normalized product is the request's \<^verbatim>\<open>product\<close>: the draft's fields, with
  \<open>features\<close>, \<open>imageUrls\<close> and \<open>keywords\<close> replaced by lists. It is built here in
  the shape the route handler reads after the JSON round trip, every field present.
\<close>

definition normalizeProduct :: "ProductDraft \<Rightarrow> ProductPayload_api" where
  "normalizeProduct product =
     (let features' = splitTrimmed (CHR 0x0A) (features product);
          imageUrls' = splitTrimmed (CHR 0x0A) (imageUrls product);
          keywords' = splitTrimmed (CHR 0x2C) (keywords_text product)
      in \<lparr>p_title = title product,
          p_category = Some (category product),
          p_price = Some (price product),
          p_currency = Some (currency product),
          p_unit = Some (unit product),
          p_stock = Some (stock product),
          p_minOrderQty = Some (minOrderQty product),
          p_keywords = Some keywords',
          p_imageUrls = Some imageUrls',
          p_shortDescription = Some (shortDescription product),
          p_description = Some (description product),
          p_features = Some features',
          p_packaging = Some (packaging product),
          p_leadTime = Some (leadTime product)\<rparr>)"

text \<open>
  \<^verbatim>\<open>JSON.stringify({settings, product: normalizeProduct(next.payload)})\<close> as the route
  handler parses it; the handler does not read \<open>autoStart\<close>.
\<close>

definition requestBody :: "AgentSettings \<Rightarrow> ProductDraft \<Rightarrow> RequestBody" where
  "requestBody st product =
     \<lparr>rb_settings = Some \<lparr>s_apiKey = Some (apiKey st), s_sellerId = Some (sellerId st),
                           s_baseUrl = Some (baseUrl st), s_mode = Some (mode st)\<rparr>,
      rb_product = Some (normalizeProduct product)\<rparr>"

section \<open>The console: state\<close>

text \<open>
  The component's state: the React state variables \<open>settings\<close>, \<open>draft\<close>,
  \<open>queue\<close>, \<open>processing\<close>, \<open>activeProductId\<close> and \<open>logs\<close>, and what the
  browser holds for it between two events: \<open>inflight\<close>, the calls of
  \<open>processNextProduct\<close> that wait at their \<^verbatim>\<open>await fetch\<close>, each with the
  \<open>next\<close> and the \<open>settings\<close> its closure captured, and \<open>timers\<close>, the number of
  pending \<^verbatim>\<open>setTimeout\<close> callbacks. \<^verbatim>\<open>makeId()\<close> and \<^verbatim>\<open>Date.now()\<close>
  are answered by the environment: the \<open>n\<close>-th call since the start returns \<open>entropy n\<close>
  and \<open>clock n\<close>, and \<open>ticks\<close> counts the calls.
\<close>

record InFlight =
  fl_next :: ProductPayload
  fl_settings :: AgentSettings

record State =
  settings :: AgentSettings
  draft :: ProductDraft
  queue :: "ProductPayload list"
  processing :: bool
  activeProductId :: "string option"
  logs :: "LogEntry list"
  inflight :: "InFlight list"
  timers :: nat
  entropy :: "nat \<Rightarrow> string"
  clock :: "nat \<Rightarrow> nat"
  ticks :: nat

text \<open>
  The refs \<open>queueRef\<close>, \<open>processingRef\<close> and \<open>activeProductRef\<close> are written only by
  the three effects of lines 130-140, which run after a render in which the state variable
  changed. So during an event handler, and during the effects that follow its render, a ref
  holds the value its state variable had when that render was committed.
\<close>

record Refs =
  queueRef :: "ProductPayload list"
  processingRef :: bool
  activeProductRef :: "string option"

definition refsOf :: "State \<Rightarrow> Refs" where
  "refsOf s = \<lparr>queueRef = queue s, processingRef = processing s,
               activeProductRef = activeProductId s\<rparr>"

text \<open>\<^verbatim>\<open>if (activeProductRef.current)\<close>: null and the empty string are falsy.\<close>

definition truthy :: "string option \<Rightarrow> bool" where
  "truthy v \<longleftrightarrow> (case v of None \<Rightarrow> False | Some x \<Rightarrow> x \<noteq> [])"

definition makeId :: "State \<Rightarrow> string \<times> State" where
  "makeId s = (entropy s (ticks s), s\<lparr>ticks := Suc (ticks s)\<rparr>)"

definition dateNow :: "State \<Rightarrow> nat \<times> State" where
  "dateNow s = (clock s (ticks s), s\<lparr>ticks := Suc (ticks s)\<rparr>)"

text \<open>
  \<open>appendLog\<close> (lines 147-156): the entry is appended with a fresh id and the time.
  React runs the updater of \<^verbatim>\<open>setLogs\<close>, and with it these two calls, at the next
  render; the entry is built here at the call, which changes only the position among the
  environment's answers that the entry's id and time come from.
\<close>

definition appendLog :: "LogLevel \<Rightarrow> string \<Rightarrow> string option \<Rightarrow> State \<Rightarrow> State" where
  "appendLog lv hl dt s =
     (let (i, s1) = makeId s;
          (t, s2) = dateNow s1
      in s2\<lparr>logs := logs s2 @ [\<lparr>lid = i, level = lv, headline = hl, details = dt,
                                 timestamp = t\<rparr>]\<rparr>)"

definition resetDraft :: "State \<Rightarrow> State" where
  "resetDraft s = s\<lparr>draft := initialDraft\<rparr>"

text \<open>
  \<open>addToQueue\<close> (lines 162-183). It reads \<open>processingRef\<close>, so it takes the refs of the
  last committed render.
\<close>

definition addToQueue :: "Refs \<Rightarrow> ProductDraft \<Rightarrow> State \<Rightarrow> State" where
  "addToQueue r product s =
     (let (i, s1) = makeId s;
          (t, s2) = dateNow s1;
          item = \<lparr>pid = i, createdAt = t, payload = product\<rparr>;
          s3 = s2\<lparr>queue := queue s2 @ [item]\<rparr>;
          s4 = appendLog info (''Product queued: '' @ orElse (title product) ''Untitled'')
                 (Some ''Added to automation queue'') s3
      in if autoStart (settings s) \<and> \<not> processingRef r then s4\<lparr>processing := True\<rparr> else s4)"

text \<open>
  \<open>processNextProduct\<close> up to its \<^verbatim>\<open>await fetch\<close> (lines 244-281): the two guards
  on the refs, the end of the drain on an empty queue, and otherwise the start of the
  dispatch of the head of \<open>queueRef\<close>, which leaves the call waiting in \<open>inflight\<close>.
\<close>

definition processNextProduct :: "Refs \<Rightarrow> State \<Rightarrow> State" where
  "processNextProduct r s =
     (if \<not> processingRef r then s
      else if truthy (activeProductRef r) then s
      else
        (case queueRef r of
           [] \<Rightarrow>
             appendLog success ''Queue complete'' (Some ''All products processed successfully.'')
               (s\<lparr>processing := False\<rparr>)
         | nxt # _ \<Rightarrow>
             (let s1 = s\<lparr>activeProductId := Some (pid nxt)\<rparr>;
                  s2 = appendLog info
                         (''Processing: '' @ orElse (title (payload nxt)) ''Untitled product'')
                         (Some (''Attempting IndiaMART sync in ''
                                @ (if mode (settings s) = simulate then ''simulation'' else ''live'')
                                @ '' mode.'')) s1
              in s2\<lparr>inflight := inflight s2 @ [\<lparr>fl_next = nxt, fl_settings = settings s\<rparr>]\<rparr>)))"

text \<open>
  What React does after an event handler: it renders, synchronises the refs, and runs the
  effects whose dependencies changed, in the order of the source. The effect of lines
  316-320 runs when \<open>processing\<close> changed and calls \<open>processNextProduct\<close> when it is
  true. The effect of lines 322-329 runs when \<open>queue\<close> changed, that is when the handler
  called \<open>setQueue\<close> (\<open>queueSet\<close>), since every update builds a new array. Both read
  the refs of this render: a state update made by the first effect is not yet in the refs
  when the second runs. The updates the effects make touch neither \<open>queue\<close> nor turn
  \<open>processing\<close> on, so the render that follows them runs no further effect.
\<close>

definition commit :: "bool \<Rightarrow> State \<Rightarrow> State \<Rightarrow> State" where
  "commit queueSet before s =
     (let r = refsOf s;
          s1 = (if processing s \<noteq> processing before \<and> processing s
                then processNextProduct r s else s);
          s2 = (if queueSet
                then (if \<not> processingRef r \<or> truthy (activeProductRef r) then s1
                      else if queueRef r \<noteq> [] then processNextProduct r s1 else s1)
                else s1)
      in s2)"

section \<open>The console: event handlers\<close>

datatype DraftKey =
    K_title | K_category | K_price | K_currency | K_unit | K_stock | K_minOrderQty
  | K_keywords | K_imageUrls | K_shortDescription | K_description | K_features
  | K_packaging | K_leadTime

text \<open>\<open>handleDraftChange\<close> (lines 185-193): one field of the draft takes the input's value.\<close>

definition handleDraftChange :: "DraftKey \<Rightarrow> string \<Rightarrow> State \<Rightarrow> State" where
  "handleDraftChange key v s =
     s\<lparr>draft :=
         (case key of
            K_title \<Rightarrow> (draft s)\<lparr>title := v\<rparr>
          | K_category \<Rightarrow> (draft s)\<lparr>category := v\<rparr>
          | K_price \<Rightarrow> (draft s)\<lparr>price := v\<rparr>
          | K_currency \<Rightarrow> (draft s)\<lparr>currency := v\<rparr>
          | K_unit \<Rightarrow> (draft s)\<lparr>unit := v\<rparr>
          | K_stock \<Rightarrow> (draft s)\<lparr>stock := v\<rparr>
          | K_minOrderQty \<Rightarrow> (draft s)\<lparr>minOrderQty := v\<rparr>
          | K_keywords \<Rightarrow> (draft s)\<lparr>keywords_text := v\<rparr>
          | K_imageUrls \<Rightarrow> (draft s)\<lparr>imageUrls := v\<rparr>
          | K_shortDescription \<Rightarrow> (draft s)\<lparr>shortDescription := v\<rparr>
          | K_description \<Rightarrow> (draft s)\<lparr>description := v\<rparr>
          | K_features \<Rightarrow> (draft s)\<lparr>features := v\<rparr>
          | K_packaging \<Rightarrow> (draft s)\<lparr>packaging := v\<rparr>
          | K_leadTime \<Rightarrow> (draft s)\<lparr>leadTime := v\<rparr>)\<rparr>"

text \<open>\<open>handleAddDraftToQueue\<close> (lines 331-346), with the render that follows it.\<close>

definition handleAddDraftToQueue :: "State \<Rightarrow> State" where
  "handleAddDraftToQueue s =
     (if title (draft s) = []
      then commit False s
             (appendLog error ''Missing product name''
                (Some ''Add a product title before queuing.'') s)
      else commit True s (resetDraft (addToQueue (refsOf s) (draft s) s)))"

text \<open>\<open>runAgent\<close> (lines 219-232), with the render that follows it.\<close>

definition runAgent :: "State \<Rightarrow> State" where
  "runAgent s =
     (let r = refsOf s in
      if processingRef r then s
      else if queueRef r = []
      then commit False s
             (appendLog info ''Queue empty'' (Some ''No products waiting in the queue.'') s)
      else commit False s (s\<lparr>processing := True\<rparr>))"

text \<open>\<open>stopAgent\<close> (lines 234-242), with the render that follows it.\<close>

definition stopAgent :: "State \<Rightarrow> State" where
  "stopAgent s =
     commit False s
       (appendLog info ''Agent paused'' (Some ''Automation paused manually.'')
          (s\<lparr>processing := False, activeProductId := None\<rparr>))"

text \<open>The decimal digits of a number, as a template literal prints it.\<close>

function showNat :: "nat \<Rightarrow> string" where
  "showNat n = (if n < 10 then [char_of (48 + n)]
                else showNat (n div 10) @ [char_of (48 + n mod 10)])"
  by pat_completeness auto
termination
  by (relation "measure (\<lambda>n. n)") auto

text \<open>
  The browser's call \<^verbatim>\<open>fetch("/api/indiamart", ...)\<close> followed by
  \<^verbatim>\<open>response.json()\<close>: either one of the two throws, or the route handler's answer
  arrives.
\<close>

datatype Transport = delivered | failed Thrown

text \<open>
  The \<^verbatim>\<open>try\<close> block of \<open>processNextProduct\<close> after the \<^verbatim>\<open>await\<close> (lines
  283-299): \<open>Inl\<close> is the message the \<^verbatim>\<open>catch\<close> block receives, \<open>Inr\<close> the
  decoded answer of a call that went through. An answer that is not ok is thrown as an
  error with the answer's \<^verbatim>\<open>error\<close> text.
\<close>

definition dispatchOutcome ::
  "Transport \<Rightarrow> (OutboundRequest \<Rightarrow> FetchResult) \<Rightarrow> AgentSettings \<Rightarrow> ProductDraft
     \<Rightarrow> string + ResponseBody" where
  "dispatchOutcome transport remote st product =
     (case transport of
        failed t \<Rightarrow>
          Inl (case t of ErrorObject m \<Rightarrow> m
                       | OtherValue \<Rightarrow> ''Unexpected error while uploading product.'')
      | delivered \<Rightarrow>
          (let response = fst (POST remote (Some (requestBody st product)))
           in if \<not> (200 \<le> h_status response \<and> h_status response \<le> 299)
              then Inl (case h_body response of
                          ErrorBody m \<Rightarrow> m
                        | RemoteErrorBody m _ _ \<Rightarrow> m
                        | _ \<Rightarrow> ''Unable to upload product.'')
              else Inr (h_body response)))"

text \<open>\<^verbatim>\<open>result?.status ?? "success"\<close> inside the template literal.\<close>

definition resultStatus :: "ResponseBody \<Rightarrow> string" where
  "resultStatus result =
     (case result of
        SimulatedBody _ \<Rightarrow> ''simulated''
      | SuccessBody _ \<Rightarrow> ''success''
      | RemoteErrorBody _ n _ \<Rightarrow> showNat n
      | ErrorBody _ \<Rightarrow> ''success'')"

text \<open>
  The two calls of \<open>appendLog\<close> that end the \<^verbatim>\<open>try\<close> and the \<^verbatim>\<open>catch\<close>
  block (lines 290-304): one success event for an answer that went through, one error event
  with the caught message otherwise.
\<close>

definition logOutcome :: "AgentSettings \<Rightarrow> ProductPayload \<Rightarrow> string + ResponseBody \<Rightarrow> State \<Rightarrow> State" where
  "logOutcome st nxt outcome s =
     (case outcome of
        Inr result \<Rightarrow>
          appendLog success (''Uploaded: '' @ orElse (title (payload nxt)) ''Untitled product'')
            (Some (if mode st = simulate
                   then ''Simulation completed. Ready to upload live.''
                   else ''IndiaMART responded with status: '' @ resultStatus result))
            s
      | Inl message \<Rightarrow>
          appendLog error (''Failed: '' @ orElse (title (payload nxt)) ''Untitled product'')
            (Some message) s)"

text \<open>
  The rest of a call of \<open>processNextProduct\<close>, run when the answer to its fetch arrives
  (lines 283-313) and followed by a render: the call is the \<open>k\<close>-th of those waiting. It
  logs the outcome, removes from the queue every item with the id of its \<open>next\<close>, clears
  \<open>activeProductId\<close> and sets the timer.
\<close>

definition completeDispatch ::
  "nat \<Rightarrow> Transport \<Rightarrow> (OutboundRequest \<Rightarrow> FetchResult) \<Rightarrow> State \<Rightarrow> State" where
  "completeDispatch k transport remote s =
     (if \<not> k < length (inflight s) then s
      else
        (let nxt = fl_next (inflight s ! k);
             st = fl_settings (inflight s ! k);
             s0 = s\<lparr>inflight := take k (inflight s) @ drop (Suc k) (inflight s)\<rparr>;
             s1 = logOutcome st nxt (dispatchOutcome transport remote st (payload nxt)) s0;
             s2 = s1\<lparr>queue := filter (\<lambda>item. pid item \<noteq> pid nxt) (queue s1),
                     activeProductId := None,
                     timers := Suc (timers s1)\<rparr>
         in commit True s s2))"

text \<open>
  The callback of \<^verbatim>\<open>setTimeout\<close> (lines 308-312), with the render that follows it.
\<close>

definition timerFire :: "State \<Rightarrow> State" where
  "timerFire s =
     (if timers s = 0 then s
      else
        (let s0 = s\<lparr>timers := timers s - 1\<rparr>
         in commit False s
              (if processingRef (refsOf s) then processNextProduct (refsOf s) s0 else s0)))"

section \<open>CSV import (page.tsx, lines 372-454)\<close>

definition expectedColumns :: "string list" where
  "expectedColumns =
     [''title'', ''category'', ''price'', ''currency'', ''unit'', ''stock'', ''minorderqty'',
      ''keywords'', ''imageurls'', ''shortdescription'', ''description'', ''features'',
      ''packaging'', ''leadtime'']"

definition nonBlankLines :: "string \<Rightarrow> string list" where
  "nonBlankLines txt = filter (\<lambda>line. line \<noteq> []) (map trim (splitLines txt))"

definition normalizeHeader :: "string \<Rightarrow> string" where
  "normalizeHeader column = stripWhiteSpace (toLowerCase (cleanCell column))"

definition csvHeaders :: "string \<Rightarrow> string list" where
  "csvHeaders headerLine = map normalizeHeader (splitCsvLine headerLine)"

definition missingColumns :: "string list \<Rightarrow> string list" where
  "missingColumns headers = filter (\<lambda>key. key \<notin> set headers) expectedColumns"

text \<open>\<^verbatim>\<open>headers.indexOf(column)\<close>; \<open>None\<close> stands for -1.\<close>

fun indexOf :: "string list \<Rightarrow> string \<Rightarrow> nat option" where
  "indexOf [] column = None"
| "indexOf (h # hs) column =
     (if h = column then Some 0 else map_option Suc (indexOf hs column))"

definition getValue :: "string list \<Rightarrow> string list \<Rightarrow> string \<Rightarrow> string" where
  "getValue headers row column =
     (case indexOf headers column of
        None \<Rightarrow> []
      | Some i \<Rightarrow> if i < length row then row ! i else [])"

definition rowProduct :: "string list \<Rightarrow> string \<Rightarrow> ProductDraft" where
  "rowProduct headers rowLine =
     (let cells = map cleanCell (splitCsvLine rowLine) in
      \<lparr>title = getValue headers cells ''title'',
       category = getValue headers cells ''category'',
       price = getValue headers cells ''price'',
       currency = orElse (getValue headers cells ''currency'') ''INR'',
       unit = orElse (getValue headers cells ''unit'') ''Unit'',
       stock = getValue headers cells ''stock'',
       minOrderQty = getValue headers cells ''minorderqty'',
       keywords_text = getValue headers cells ''keywords'',
       imageUrls = getValue headers cells ''imageurls'',
       shortDescription = getValue headers cells ''shortdescription'',
       description = getValue headers cells ''description'',
       features = getValue headers cells ''features'',
       packaging = getValue headers cells ''packaging'',
       leadTime = getValue headers cells ''leadtime''\<rparr>)"

text \<open>
  \<open>parseCsvFile\<close> after the file's text has been read, with the render that follows it.
  Every \<open>addToQueue\<close> of the loop reads the refs of the render before the import.
\<close>

definition parseCsvFile :: "string \<Rightarrow> State \<Rightarrow> State" where
  "parseCsvFile txt s =
     (case nonBlankLines txt of
        [] \<Rightarrow> commit False s (appendLog error ''Empty CSV'' (Some ''No header row detected.'') s)
      | headerLine # rows \<Rightarrow>
          (let headers = csvHeaders headerLine;
               missing = missingColumns headers
           in if missing \<noteq> []
              then commit False s
                     (appendLog error ''CSV headers mismatch''
                        (Some (''Missing columns: '' @ join '', '' missing)) s)
              else
                (let s1 = foldl (\<lambda>acc rowLine. addToQueue (refsOf s) (rowProduct headers rowLine) acc)
                            s rows;
                     s2 = appendLog success ''CSV imported''
                            (Some (showNat (length rows) @ '' product rows processed.'')) s1
                 in commit (rows \<noteq> []) s s2)))"

section \<open>Runs of the console\<close>

text \<open>
  The events the console reacts to: the operator's (typing into the form, submitting it,
  importing a file, start, stop) and the environment's (the answer to a waiting fetch
  arrives, a timer fires). A completion names the waiting call by its position and carries
  what the transport and the remote API do for it. The reset button and the description
  generator only write fields of the draft, as typing does. The settings panel is not among
  the events: the settings of a run are those of its first state.
\<close>

datatype Event =
    DraftChange DraftKey string
  | Submit
  | ImportCsv string
  | Start
  | Stop
  | Complete nat Transport "OutboundRequest \<Rightarrow> FetchResult"
  | TimerFire

fun step :: "Event \<Rightarrow> State \<Rightarrow> State" where
  "step (DraftChange key v) s = handleDraftChange key v s"
| "step Submit s = handleAddDraftToQueue s"
| "step (ImportCsv txt) s = parseCsvFile txt s"
| "step Start s = runAgent s"
| "step Stop s = stopAgent s"
| "step (Complete k transport remote) s = completeDispatch k transport remote s"
| "step TimerFire s = timerFire s"

definition run :: "Event list \<Rightarrow> State \<Rightarrow> State" where
  "run es s = foldl (\<lambda>acc e. step e acc) s es"

text \<open>The events that are not the operator's.\<close>

fun environmentEvent :: "Event \<Rightarrow> bool" where
  "environmentEvent (Complete _ _ _) = True"
| "environmentEvent TimerFire = True"
| "environmentEvent _ = False"

section \<open>Notions used in the statements\<close>

text \<open>
  The commas of a line that stand outside quotes, counted as the CSV format reads them: a
  quote character switches between outside and inside, and a comma counts when it is met
  outside.
\<close>

fun commasOutside :: "bool \<Rightarrow> string \<Rightarrow> nat" where
  "commasOutside inq [] = 0"
| "commasOutside inq (c # cs) =
     (if c = CHR 0x22 then commasOutside (\<not> inq) cs
      else if c = CHR 0x2C \<and> \<not> inq then Suc (commasOutside inq cs)
      else commasOutside inq cs)"

text \<open>
  A field written as a quoted CSV field: wrapped in quotes, every quote inside doubled.
\<close>

definition quoteField :: "string \<Rightarrow> string" where
  "quoteField f =
     CHR 0x22 # concat (map (\<lambda>c. if c = CHR 0x22 then [CHR 0x22, CHR 0x22] else [c]) f)
       @ [CHR 0x22]"

text \<open>
  A field as a line carries it: quoted (the flag is true), or written as it is, which is
  how a field free of quotes and commas may be written.
\<close>

definition writeField :: "bool \<times> string \<Rightarrow> string" where
  "writeField qf = (if fst qf then quoteField (snd qf) else snd qf)"

definition unquotedPlain :: "bool \<times> string \<Rightarrow> bool" where
  "unquotedPlain qf \<longleftrightarrow> fst qf \<or> (CHR 0x22 \<notin> set (snd qf) \<and> CHR 0x2C \<notin> set (snd qf))"

text \<open>Sample inputs: a remote API that cannot be reached, and a complete product.\<close>

definition remoteDown :: "OutboundRequest \<Rightarrow> FetchResult" where
  "remoteDown call = Threw (ErrorObject ''fetch failed'')"

definition sampleDraft :: ProductDraft where
  "sampleDraft =
     initialDraft\<lparr>title := ''Copper wire'', shortDescription := ''16 AWG'',
                  description := ''Copper wire, 16 AWG'',
                  features := ''Pure copper'' @ [CHR 0x0A] @ '' Flexible '',
                  keywords_text := ''wire, copper ,'',
                  imageUrls := ''a'' @ [CHR 0x0A] @ ''b'' @ [CHR 0x0A] @ ''c'' @ [CHR 0x0A] @ ''d''\<rparr>"

definition sampleProduct :: ProductPayload_api where
  "sampleProduct = normalizeProduct sampleDraft"

section \<open>Notions about runs\<close>

text \<open>
  Counting the log: the entries whose level and headline satisfy a predicate. A terminal
  event is an entry of level success or error.
\<close>

definition countLogs :: "(LogLevel \<Rightarrow> string \<Rightarrow> bool) \<Rightarrow> State \<Rightarrow> nat" where
  "countLogs P s = length (filter (\<lambda>e. P (level e) (headline e)) (logs s))"

definition terminalEvents :: "State \<Rightarrow> nat" where
  "terminalEvents s = countLogs (\<lambda>lv hl. lv = success \<or> lv = error) s"

definition errorEvents :: "State \<Rightarrow> nat" where
  "errorEvents s = countLogs (\<lambda>lv hl. lv = error) s"

definition queueCompleteEvents :: "State \<Rightarrow> nat" where
  "queueCompleteEvents s = countLogs (\<lambda>lv hl. lv = success \<and> hl = ''Queue complete'') s"

text \<open>The dispatches begun so far: the info entries \<open>Processing: ...\<close>.\<close>

definition dispatchesBegun :: "State \<Rightarrow> nat" where
  "dispatchesBegun s = countLogs (\<lambda>lv hl. lv = info \<and> take 12 hl = ''Processing: '') s"

text \<open>Level, headline and details of the entry \<open>logOutcome\<close> appends.\<close>

definition outcomeLevel :: "string + ResponseBody \<Rightarrow> LogLevel" where
  "outcomeLevel outcome = (case outcome of Inl _ \<Rightarrow> error | Inr _ \<Rightarrow> success)"

definition outcomeHeadline :: "ProductPayload \<Rightarrow> string + ResponseBody \<Rightarrow> string" where
  "outcomeHeadline nxt outcome =
     (case outcome of Inl _ \<Rightarrow> ''Failed: '' | Inr _ \<Rightarrow> ''Uploaded: '')
     @ orElse (title (payload nxt)) ''Untitled product''"

definition outcomeDetails :: "AgentSettings \<Rightarrow> string + ResponseBody \<Rightarrow> string" where
  "outcomeDetails st outcome =
     (case outcome of
        Inl message \<Rightarrow> message
      | Inr result \<Rightarrow>
          if mode st = simulate then ''Simulation completed. Ready to upload live.''
          else ''IndiaMART responded with status: '' @ resultStatus result)"

text \<open>The state in which \<open>completeDispatch\<close> hands over to the render.\<close>

definition afterOutcome ::
  "nat \<Rightarrow> Transport \<Rightarrow> (OutboundRequest \<Rightarrow> FetchResult) \<Rightarrow> State \<Rightarrow> State" where
  "afterOutcome k t w s =
     (logOutcome (fl_settings (inflight s ! k)) (fl_next (inflight s ! k))
        (dispatchOutcome t w (fl_settings (inflight s ! k)) (payload (fl_next (inflight s ! k))))
        (s\<lparr>inflight := take k (inflight s) @ drop (Suc k) (inflight s)\<rparr>))
     \<lparr>queue := filter (\<lambda>item. pid item \<noteq> pid (fl_next (inflight s ! k))) (queue s),
      activeProductId := None,
      timers := Suc (timers s)\<rparr>"

text \<open>
  The phases of a drain that dispatches one item at a time. Dispatching: the runner is on,
  the head of the queue is the active product and the one call in flight is for it; the ids
  in the queue are distinct and not empty. Drained: the runner is still on, the queue is
  empty and nothing is in flight; the last timer is pending. Idle and empty: the runner is
  off. \<open>drainInv K Q\<close> ties the phase to the log: while dispatching, the terminal events
  logged and the items still queued add up to \<open>K\<close>; at the end there is one terminal
  event more, the \<open>Queue complete\<close> entry.
\<close>

definition dispatching :: "State \<Rightarrow> bool" where
  "dispatching s \<longleftrightarrow>
     processing s \<and> distinct (map pid (queue s)) \<and> (\<forall>i\<in>set (queue s). pid i \<noteq> [])
     \<and> (case queue s of
          [] \<Rightarrow> False
        | x # _ \<Rightarrow> activeProductId s = Some (pid x) \<and> map fl_next (inflight s) = [x])"

definition drained :: "State \<Rightarrow> bool" where
  "drained s \<longleftrightarrow> processing s \<and> queue s = [] \<and> activeProductId s = None \<and> inflight s = []"

definition idleEmpty :: "State \<Rightarrow> bool" where
  "idleEmpty s \<longleftrightarrow> \<not> processing s \<and> queue s = [] \<and> inflight s = []"

definition drainInv :: "nat \<Rightarrow> nat \<Rightarrow> State \<Rightarrow> bool" where
  "drainInv K Q s \<longleftrightarrow>
     (dispatching s \<and> terminalEvents s + length (queue s) = K \<and> queueCompleteEvents s = Q)
     \<or> (drained s \<and> terminalEvents s = K \<and> queueCompleteEvents s = Q)
     \<or> (idleEmpty s \<and> terminalEvents s = Suc K \<and> queueCompleteEvents s = Suc Q)"

text \<open>
  The operator enqueues a draft through the form: every field is typed, then the form is
  submitted.
\<close>

definition submitDraft :: "ProductDraft \<Rightarrow> Event list" where
  "submitDraft d =
     [DraftChange K_title (title d), DraftChange K_category (category d),
      DraftChange K_price (price d), DraftChange K_currency (currency d),
      DraftChange K_unit (unit d), DraftChange K_stock (stock d),
      DraftChange K_minOrderQty (minOrderQty d), DraftChange K_keywords (keywords_text d),
      DraftChange K_imageUrls (imageUrls d), DraftChange K_shortDescription (shortDescription d),
      DraftChange K_description (description d), DraftChange K_features (features d),
      DraftChange K_packaging (packaging d), DraftChange K_leadTime (leadTime d),
      Submit]"

definition enqueues :: "ProductDraft list \<Rightarrow> Event list" where
  "enqueues ds = concat (map submitDraft ds)"

text \<open>
  The console as it is mounted, with an environment whose ids are all distinct, and the
  same with auto-start turned off.
\<close>

definition initialState :: State where
  "initialState =
     \<lparr>settings = defaultSettings, draft = initialDraft, queue = [], processing = False,
      activeProductId = None, logs = [], inflight = [], timers = 0,
      entropy = (\<lambda>n. ''id-'' @ replicate n (CHR ''x'')), clock = (\<lambda>n. n), ticks = 0\<rparr>"

definition manualState :: State where
  "manualState = initialState\<lparr>settings := defaultSettings\<lparr>autoStart := False\<rparr>\<rparr>"

text \<open>Answers arriving one by one, then the last timer: the drain ends.\<close>

definition answers :: "(Transport \<times> (OutboundRequest \<Rightarrow> FetchResult)) list \<Rightarrow> Event list" where
  "answers outcomes = map (\<lambda>(t, w). Complete 0 t w) outcomes"

text \<open>A draft with a title and nothing else.\<close>

definition boltDraft :: ProductDraft where
  "boltDraft = initialDraft\<lparr>title := ''Bolt''\<rparr>"

text \<open>Sample CSV headers: the documented one, one in another order and spelling, one without its last column.\<close>

definition sampleHeader :: string where
  "sampleHeader = ''title,category,price,currency,unit,stock,minorderqty,keywords,imageurls,shortdescription,description,features,packaging,leadtime''"

definition shuffledHeader :: string where
  "shuffledHeader = ''Category, Title ,price,currency,unit,stock,Min Order Qty,keywords,imageurls,shortdescription,description,features,packaging,LeadTime''"

definition shortHeader :: string where
  "shortHeader = ''title,category,price,currency,unit,stock,minorderqty,keywords,imageurls,shortdescription,description,features,packaging''"

text \<open>
  The events that may start the runner: start itself and, with auto-start on, the two that
  enqueue.
\<close>

fun mayRestart :: "bool \<Rightarrow> Event \<Rightarrow> bool" where
  "mayRestart auto Start = True"
| "mayRestart auto Submit = auto"
| "mayRestart auto (ImportCsv _) = auto"
| "mayRestart auto _ = False"

text \<open>
  Sample states. A drain in progress with auto-start off: two items queued, the first of
  them, which lacks its descriptions, in flight. A console with auto-start on, stopped in
  the middle of a drain with one more item waiting.
\<close>

definition drainingTwo :: State where
  "drainingTwo = run (enqueues [boltDraft, sampleDraft] @ [Start]) manualState"

definition nutDraft :: ProductDraft where
  "nutDraft = initialDraft\<lparr>title := ''Nut''\<rparr>"

definition pausedMidDrain :: State where
  "pausedMidDrain = run (submitDraft sampleDraft @ submitDraft boltDraft @ [Stop]) initialState"

text \<open>
  The field of a draft that a column of the CSV format stands for, and the value the
  importer puts in place of an empty cell of that column.
\<close>

definition draftField :: "ProductDraft \<Rightarrow> string \<Rightarrow> string" where
  "draftField d column =
     (if column = ''title'' then title d
      else if column = ''category'' then category d
      else if column = ''price'' then price d
      else if column = ''currency'' then currency d
      else if column = ''unit'' then unit d
      else if column = ''stock'' then stock d
      else if column = ''minorderqty'' then minOrderQty d
      else if column = ''keywords'' then keywords_text d
      else if column = ''imageurls'' then imageUrls d
      else if column = ''shortdescription'' then shortDescription d
      else if column = ''description'' then description d
      else if column = ''features'' then features d
      else if column = ''packaging'' then packaging d
      else if column = ''leadtime'' then leadTime d
      else [])"

definition columnDefault :: "string \<Rightarrow> string" where
  "columnDefault column =
     (if column = ''currency'' then ''INR'' else if column = ''unit'' then ''Unit'' else [])"

text \<open>
  The cell of a row line at a position, as the importer reads it: the field of
  \<open>splitCsvLine\<close> there passed through \<open>cleanCell\<close>, and the empty string when the
  row has no field there.
\<close>

definition cellAt :: "string \<Rightarrow> nat \<Rightarrow> string" where
  "cellAt rowLine i =
     (if i < length (splitCsvLine rowLine) then cleanCell (splitCsvLine rowLine ! i) else [])"

text \<open>
  The console in live mode with credentials, and a remote API that rejects every call.
\<close>

definition liveState :: State where
  "liveState =
     initialState\<lparr>settings := defaultSettings\<lparr>mode := live, apiKey := ''key'', sellerId := ''42''\<rparr>\<rparr>"

definition remoteRejects :: "OutboundRequest \<Rightarrow> FetchResult" where
  "remoteRejects call =
     Responded \<lparr>r_status = 403, r_contentType = Some ''application/json; charset=utf-8'',
                r_body = ''{}'', r_jsonError = None\<rparr>"

section \<open>Properties of strings\<close>

lemma isWhiteSpace_quote [simp]: "\<not> isWhiteSpace (CHR 0x22)"
  by (simp add: isWhiteSpace_def)

lemma isWhiteSpace_comma [simp]: "\<not> isWhiteSpace (CHR 0x2C)"
  by (simp add: isWhiteSpace_def)

lemma trim_Nil [simp]: "trim [] = []"
  by (simp add: trim_def)

lemma set_trim: "set (trim s) \<subseteq> set s"
proof -
  have "set (trim s) \<subseteq> set (dropWhile isWhiteSpace s)"
    unfolding trim_def using set_dropWhileD by fastforce
  also have "\<dots> \<subseteq> set s"
    using set_dropWhileD by fastforce
  finally show ?thesis .
qed

lemma trim_all_white: "\<forall>c\<in>set s. isWhiteSpace c \<Longrightarrow> trim s = []"
proof -
  assume "\<forall>c\<in>set s. isWhiteSpace c"
  then have h: "dropWhile isWhiteSpace s = []" by simp
  show ?thesis unfolding trim_def h by simp
qed

lemma trim_id:
  assumes "s \<noteq> []" "\<not> isWhiteSpace (hd s)" "\<not> isWhiteSpace (last s)"
  shows "trim s = s"
proof -
  have front: "dropWhile isWhiteSpace s = s"
    using assms by (cases s) auto
  have rear: "dropWhile isWhiteSpace (rev s) = rev s"
    using assms by (cases "rev s") (auto simp: last_rev hd_rev dest: arg_cong[where f=hd])
  show ?thesis by (simp add: trim_def front rear)
qed

section \<open>Properties of the CSV record parser\<close>

lemma startsWithQuote_mem: "startsWithQuote s \<Longrightarrow> CHR 0x22 \<in> set s"
  by (cases s) (auto simp: startsWithQuote_def)

lemma cleanCell_plain: "CHR 0x22 \<notin> set v \<Longrightarrow> cleanCell v = trim v"
  using set_trim[of v] startsWithQuote_mem[of "trim v"]
  by (auto simp: cleanCell_def Let_def)

lemma splitCsvLoop_plain:
  "CHR 0x22 \<notin> set f \<Longrightarrow> CHR 0x2C \<notin> set f \<Longrightarrow>
   splitCsvLoop (f @ rest) vals cur False = splitCsvLoop rest vals (cur @ f) False"
  by (induction f arbitrary: cur) auto

lemma length_splitCsvLoop:
  "length (splitCsvLoop cs vals cur inq) = length vals + Suc (commasOutside inq cs)"
  by (induction cs vals cur inq rule: splitCsvLoop.induct) (auto split: list.splits)

text \<open>
  Inside quotes the loop copies the body of a quoted field, one quote for every doubled
  quote, and leaves the quotes at the closing quote, provided no quote follows it.
\<close>

lemma splitCsvLoop_quoted_body:
  "(rest = [] \<or> hd rest \<noteq> CHR 0x22) \<Longrightarrow>
   splitCsvLoop
     (concat (map (\<lambda>c. if c = CHR 0x22 then [CHR 0x22, CHR 0x22] else [c]) f) @ CHR 0x22 # rest)
     vals cur True
     = splitCsvLoop rest vals (cur @ f) False"
proof (induction f arbitrary: cur)
  case Nil
  then show ?case by (cases rest) auto
next
  case (Cons c f)
  then show ?case by (cases "c = CHR 0x22") auto
qed

lemma splitCsvLoop_quoteField:
  "(rest = [] \<or> hd rest \<noteq> CHR 0x22) \<Longrightarrow>
   splitCsvLoop (quoteField f @ rest) vals [] False = splitCsvLoop rest vals f False"
  using splitCsvLoop_quoted_body[of rest f vals "[]"]
  by (cases f) (auto simp: quoteField_def)

lemma splitCsvLoop_quoted_fields:
  "splitCsvLoop (join '','' (map quoteField (f0 # fs))) vals [] False = vals @ f0 # fs"
proof (induction fs arbitrary: f0 vals)
  case Nil
  then show ?case using splitCsvLoop_quoteField[of "[]" f0 vals] by simp
next
  case (Cons g gs)
  have "splitCsvLoop (quoteField f0 @ '','' @ join '','' (map quoteField (g # gs))) vals [] False
      = splitCsvLoop ('','' @ join '','' (map quoteField (g # gs))) vals f0 False"
    using splitCsvLoop_quoteField[of "'','' @ join '','' (map quoteField (g # gs))" f0 vals]
    by simp
  also have "\<dots> = splitCsvLoop (join '','' (map quoteField (g # gs))) (vals @ [f0]) [] False"
    by simp
  also have "\<dots> = (vals @ [f0]) @ g # gs"
    using Cons.IH[of g "vals @ [f0]"] by simp
  finally show ?case by simp
qed

text \<open>
  The tokenizer alone decodes every quoted field exactly: a line of quoted fields, whatever
  they contain, splits into these fields, each doubled quote read as one quote.
\<close>

theorem splitCsvLine_decodes_quoted_fields:
  "splitCsvLine (join '','' (map quoteField (f0 # fs))) = f0 # fs"
  using splitCsvLoop_quoted_fields[of f0 fs "[]"] by (simp add: splitCsvLine_def)

text \<open>
  The two lines of the specification's test, through the tokenizer and through the cell
  cleaning of the importer.
\<close>

theorem csv_examples_of_the_specification:
  "map cleanCell
     (splitCsvLine (''Wire,'' @ [CHR 0x22] @ ''16 AWG, copper'' @ [CHR 0x22] @ '',10''))
     = [''Wire'', ''16 AWG, copper'', ''10'']
   \<and> map cleanCell
       (splitCsvLine ([CHR 0x22] @ ''He said '' @ [CHR 0x22, CHR 0x22] @ ''hi''
                      @ [CHR 0x22, CHR 0x22, CHR 0x22] @ '',2''))
     = [''He said '' @ [CHR 0x22] @ ''hi'' @ [CHR 0x22], ''2'']"
  by (simp add: splitCsvLine_def cleanCell_def trim_def isWhiteSpace_def startsWithQuote_def
      endsWithQuote_def)

text \<open>
  Claim C5. A doubled quote inside a quoted field should decode to exactly one literal
  quote in the resulting field. The importer reads a cell as \<open>cleanCell\<close> of a field of
  \<open>splitCsvLine\<close>, and this decodes twice. On the line made of the quoted field
  \<open>"""hi"""\<close> and the field \<open>2\<close>, \<open>splitCsvLine\<close> yields the field \<open>"hi"\<close>, one
  quote for each doubled quote; \<open>cleanCell\<close> then finds a cell that starts and ends with
  a quote, strips both and yields \<open>hi\<close>: the two literal quotes are lost.
\<close>

theorem cleanCell_drops_decoded_quotes:
  "splitCsvLine ([CHR 0x22, CHR 0x22, CHR 0x22] @ ''hi'' @ [CHR 0x22, CHR 0x22, CHR 0x22] @ '',2'')
     = [[CHR 0x22] @ ''hi'' @ [CHR 0x22], ''2'']
   \<and> map cleanCell
       (splitCsvLine ([CHR 0x22, CHR 0x22, CHR 0x22] @ ''hi'' @ [CHR 0x22, CHR 0x22, CHR 0x22]
                      @ '',2''))
     = [''hi'', ''2'']"
  by (simp add: splitCsvLine_def cleanCell_def trim_def isWhiteSpace_def startsWithQuote_def
      endsWithQuote_def sliceInner_def)

text \<open>
  Claim C6, as stated, fails on the importer: an unquoted field is not used verbatim,
  since \<open>cleanCell\<close> trims every cell. The fields of the line \<open>Wire , Tools\<close> are
  \<open>Wire\<close> followed by a space and \<open>Tools\<close> preceded by one; the cells are \<open>Wire\<close>
  and \<open>Tools\<close>.
\<close>

theorem csv_cells_not_verbatim:
  "splitCsvLine ''Wire , Tools'' = [''Wire '', '' Tools'']
   \<and> map cleanCell (splitCsvLine ''Wire , Tools'') \<noteq> [''Wire '', '' Tools'']"
  by (simp add: splitCsvLine_def cleanCell_def trim_def isWhiteSpace_def startsWithQuote_def
      endsWithQuote_def)

lemma splitCsvLoop_writeField:
  assumes "unquotedPlain qf" "rest = [] \<or> hd rest \<noteq> CHR 0x22"
  shows "splitCsvLoop (writeField qf @ rest) vals [] False = splitCsvLoop rest vals (snd qf) False"
proof (cases "fst qf")
  case True
  then show ?thesis
    using splitCsvLoop_quoteField[OF assms(2), of "snd qf" vals] by (simp add: writeField_def)
next
  case False
  then show ?thesis
    using assms(1) splitCsvLoop_plain[of "snd qf" rest vals "[]"]
    by (simp add: writeField_def unquotedPlain_def)
qed

lemma splitCsvLoop_written_fields:
  "\<forall>qf\<in>set (f0 # fs). unquotedPlain qf \<Longrightarrow>
   splitCsvLoop (join '','' (map writeField (f0 # fs))) vals [] False = vals @ map snd (f0 # fs)"
proof (induction fs arbitrary: f0 vals)
  case Nil
  then show ?case using splitCsvLoop_writeField[of f0 "[]" vals] by simp
next
  case (Cons g gs)
  have "splitCsvLoop (writeField f0 @ '','' @ join '','' (map writeField (g # gs))) vals [] False
      = splitCsvLoop ('','' @ join '','' (map writeField (g # gs))) vals (snd f0) False"
    using Cons.prems
      splitCsvLoop_writeField[of f0 "'','' @ join '','' (map writeField (g # gs))" vals]
    by simp
  also have "\<dots> = splitCsvLoop (join '','' (map writeField (g # gs))) (vals @ [snd f0]) [] False"
    by simp
  also have "\<dots> = (vals @ [snd f0]) @ map snd (g # gs)"
    using Cons.IH[of g "vals @ [snd f0]"] Cons.prems by simp
  finally show ?case by simp
qed

lemma splitCsvLine_written_fields:
  assumes "fs \<noteq> []" "\<forall>qf\<in>set fs. unquotedPlain qf"
  shows "splitCsvLine (join '','' (map writeField fs)) = map snd fs"
proof -
  obtain f0 gs where "fs = f0 # gs"
    using assms(1) by (cases fs) auto
  then show ?thesis
    using assms(2) splitCsvLoop_written_fields[of f0 gs "[]"] by (simp add: splitCsvLine_def)
qed

text \<open>
  Claim C6, amended. For every CSV line, \<open>splitCsvLine\<close> emits each unquoted field
  verbatim, character for character and with its surrounding white space, and the last
  field also when no comma ends the line: a line written from fields joined by commas, each
  of them quoted or, when free of quotes and commas, written as it is, splits into exactly
  these fields, and a line with \<open>k\<close> commas outside quotes yields \<open>k + 1\<close> fields.
  The importer then passes every field through \<open>cleanCell\<close>, so the cell it uses for an
  unquoted field is the field with its surrounding white space trimmed.
\<close>

theorem csv_unquoted_fields:
  "(fs \<noteq> [] \<and> (\<forall>qf\<in>set fs. unquotedPlain qf)
      \<longrightarrow> splitCsvLine (join '','' (map writeField fs)) = map snd fs
        \<and> (\<forall>i<length fs. \<not> fst (fs ! i) \<longrightarrow>
              splitCsvLine (join '','' (map writeField fs)) ! i = writeField (fs ! i)
              \<and> cleanCell (splitCsvLine (join '','' (map writeField fs)) ! i)
                  = trim (writeField (fs ! i))))
   \<and> length (splitCsvLine line) = Suc (commasOutside False line)
   \<and> length (map cleanCell (splitCsvLine line)) = Suc (commasOutside False line)"
proof -
  have cells: "splitCsvLine (join '','' (map writeField fs)) ! i = writeField (fs ! i)
      \<and> cleanCell (splitCsvLine (join '','' (map writeField fs)) ! i) = trim (writeField (fs ! i))"
    if ne: "fs \<noteq> []" and plain: "\<forall>qf\<in>set fs. unquotedPlain qf"
      and i: "i < length fs" "\<not> fst (fs ! i)" for i
  proof -
    have "unquotedPlain (fs ! i)"
      using plain i(1) by simp
    then have "CHR 0x22 \<notin> set (snd (fs ! i))"
      using i(2) by (simp add: unquotedPlain_def)
    then show ?thesis
      using i splitCsvLine_written_fields[OF ne plain]
      by (simp add: writeField_def cleanCell_plain)
  qed
  have count: "length (splitCsvLine line) = Suc (commasOutside False line)"
    by (simp add: splitCsvLine_def length_splitCsvLoop)
  have whole: "splitCsvLine (join '','' (map writeField fs)) = map snd fs"
    if "fs \<noteq> []" "\<forall>qf\<in>set fs. unquotedPlain qf"
    using that by (rule splitCsvLine_written_fields)
  have count': "length (map cleanCell (splitCsvLine line)) = Suc (commasOutside False line)"
    using count by simp
  show ?thesis
    using whole cells count count' by blast
qed

theorem csv_unquoted_fields_witness:
  "splitCsvLine (''Wire ,'' @ [CHR 0x22] @ ''16 AWG, copper'' @ [CHR 0x22] @ '', Tools,10'')
     = [''Wire '', ''16 AWG, copper'', '' Tools'', ''10'']
   \<and> cleanCell (splitCsvLine (''Wire ,'' @ [CHR 0x22] @ ''16 AWG, copper'' @ [CHR 0x22]
                               @ '', Tools,10'') ! 2) = ''Tools''
   \<and> length (splitCsvLine ''a,b,'') = 3"
proof -
  let ?fs = "[(False, ''Wire ''), (True, ''16 AWG, copper''), (False, '' Tools''), (False, ''10'')]"
  have plain: "?fs \<noteq> [] \<and> (\<forall>qf\<in>set ?fs. unquotedPlain qf)"
    by (simp add: unquotedPlain_def)
  have joined: "join '','' (map writeField ?fs)
      = ''Wire ,'' @ [CHR 0x22] @ ''16 AWG, copper'' @ [CHR 0x22] @ '', Tools,10''"
    by (simp add: writeField_def quoteField_def)
  have third: "(2::nat) < length ?fs" "\<not> fst (?fs ! 2)" "trim (writeField (?fs ! 2)) = ''Tools''"
    by (simp_all add: writeField_def trim_def isWhiteSpace_def)
  have commas: "Suc (commasOutside False ''a,b,'') = 3"
    by simp
  have whole: "splitCsvLine (join '','' (map writeField ?fs)) = map snd ?fs"
    and cell: "cleanCell (splitCsvLine (join '','' (map writeField ?fs)) ! 2)
                = trim (writeField (?fs ! 2))"
    and len: "length (splitCsvLine ''a,b,'') = Suc (commasOutside False ''a,b,'')"
    using csv_unquoted_fields[of ?fs "''a,b,''"] plain third(1,2) by blast+
  show ?thesis
    using whole cell len unfolding joined third(3) commas by simp
qed

section \<open>Properties of the upload gateway\<close>

lemma falsy_simps [simp]:
  "falsy None = True"
  "falsy (Some x) = (x = [])"
  by (simp_all add: falsy_def)

lemma orDefault_simps [simp]:
  "orDefault None d = d"
  "orDefault (Some x) d = x"
  by (simp_all add: orDefault_def)

lemma missingFields_eq:
  "missingFields p =
     (if p_title p = [] then [''title''] else [])
     @ (if falsy (p_description p) then [''description''] else [])
     @ (if falsy (p_shortDescription p) then [''shortDescription''] else [])"
  by (cases "p_description p"; cases "p_shortDescription p")
     (simp_all add: missingFields_def MINIMUM_FIELDS_def fieldValue_def)

lemma missingFields_Nil:
  "missingFields p = [] \<longleftrightarrow>
     p_title p \<noteq> [] \<and> \<not> falsy (p_description p) \<and> \<not> falsy (p_shortDescription p)"
  by (simp add: missingFields_eq)

lemma normalizeSettings_Some [simp]:
  "s_apiKey (normalizeSettings (Some st)) = map_option trim (s_apiKey st)"
  "s_sellerId (normalizeSettings (Some st)) = map_option trim (s_sellerId st)"
  "s_baseUrl (normalizeSettings (Some st)) = map_option trim (s_baseUrl st)"
  "s_mode (normalizeSettings (Some st)) = Some (orDefault (s_mode st) simulate)"
  by (simp_all add: normalizeSettings_def)

lemma sampleProduct_valid: "missingFields sampleProduct = []"
  by (simp add: sampleProduct_def sampleDraft_def normalizeProduct_def initialDraft_def
      missingFields_def MINIMUM_FIELDS_def fieldValue_def Let_def)

lemma sampleProduct_value:
  "sampleProduct =
     \<lparr>p_title = ''Copper wire'', p_category = Some [], p_price = Some [],
      p_currency = Some ''INR'', p_unit = Some ''Unit'', p_stock = Some [],
      p_minOrderQty = Some [], p_keywords = Some [''wire'', ''copper''],
      p_imageUrls = Some [''a'', ''b'', ''c'', ''d''],
      p_shortDescription = Some ''16 AWG'', p_description = Some ''Copper wire, 16 AWG'',
      p_features = Some [''Pure copper'', ''Flexible''],
      p_packaging = Some [], p_leadTime = Some []\<rparr>"
  by (simp add: sampleProduct_def sampleDraft_def normalizeProduct_def initialDraft_def
      splitTrimmed_def trim_def isWhiteSpace_def Let_def)

text \<open>
  Claim C9. \<open>POST\<close> enforces its preconditions before any outbound call. If any of
  \<open>title\<close>, \<open>description\<close> and \<open>shortDescription\<close> is empty or absent, the answer is
  400 and its message names every missing field, in the order of \<open>MINIMUM_FIELDS\<close>.
  Otherwise, in live mode with an empty or absent \<open>apiKey\<close> or \<open>sellerId\<close>, the answer
  is 400 with the message of the first missing credential. In both cases the list of
  outbound calls is empty.
\<close>

theorem POST_enforces_preconditions:
  "(p_title p = [] \<or> falsy (p_description p) \<or> falsy (p_shortDescription p)
      \<longrightarrow> POST remote (Some \<lparr>rb_settings = sto, rb_product = Some p\<rparr>)
            = (\<lparr>h_status = 400,
                h_body = ErrorBody (''Missing required product fields: ''
                   @ join '', ''
                       ((if p_title p = [] then [''title''] else [])
                        @ (if falsy (p_description p) then [''description''] else [])
                        @ (if falsy (p_shortDescription p) then [''shortDescription''] else [])))\<rparr>,
               []))
   \<and> (\<not> (p_title p = [] \<or> falsy (p_description p) \<or> falsy (p_shortDescription p))
        \<and> s_mode st = Some live \<and> (falsy (s_apiKey st) \<or> falsy (s_sellerId st))
      \<longrightarrow> POST remote (Some \<lparr>rb_settings = Some st, rb_product = Some p\<rparr>)
            = (\<lparr>h_status = 400,
                h_body = ErrorBody (if falsy (map_option trim (s_apiKey st))
                                    then ''API key is required in live mode.''
                                    else ''Seller ID is required in live mode.'')\<rparr>, []))"
proof (intro conjI impI)
  assume "p_title p = [] \<or> falsy (p_description p) \<or> falsy (p_shortDescription p)"
  then have "missingFields p \<noteq> []" by (auto simp: missingFields_Nil)
  then show "POST remote (Some \<lparr>rb_settings = sto, rb_product = Some p\<rparr>)
            = (\<lparr>h_status = 400,
                h_body = ErrorBody (''Missing required product fields: ''
                   @ join '', ''
                       ((if p_title p = [] then [''title''] else [])
                        @ (if falsy (p_description p) then [''description''] else [])
                        @ (if falsy (p_shortDescription p) then [''shortDescription''] else [])))\<rparr>,
               [])"
    unfolding POST_def by (simp add: missingFields_eq[symmetric])
next
  assume a: "\<not> (p_title p = [] \<or> falsy (p_description p) \<or> falsy (p_shortDescription p))
        \<and> s_mode st = Some live \<and> (falsy (s_apiKey st) \<or> falsy (s_sellerId st))"
  then have m: "missingFields p = []" by (simp add: missingFields_Nil)
  have k: "falsy (map_option trim (s_apiKey st)) \<or> falsy (map_option trim (s_sellerId st))"
    using a by (cases "s_apiKey st"; cases "s_sellerId st") auto
  show "POST remote (Some \<lparr>rb_settings = Some st, rb_product = Some p\<rparr>)
            = (\<lparr>h_status = 400,
                h_body = ErrorBody (if falsy (map_option trim (s_apiKey st))
                                    then ''API key is required in live mode.''
                                    else ''Seller ID is required in live mode.'')\<rparr>, [])"
    using a m k by (auto simp: POST_def Let_def)
qed

theorem POST_enforces_preconditions_witness:
  "POST remoteDown
     (Some \<lparr>rb_settings = None,
            rb_product = Some (sampleProduct\<lparr>p_description := Some [], p_shortDescription := None\<rparr>)\<rparr>)
     = (\<lparr>h_status = 400,
         h_body = ErrorBody ''Missing required product fields: description, shortDescription''\<rparr>,
        [])
   \<and> POST remoteDown
       (Some \<lparr>rb_settings = Some \<lparr>s_apiKey = Some ''key'', s_sellerId = Some [],
                                  s_baseUrl = None, s_mode = Some live\<rparr>,
              rb_product = Some sampleProduct\<rparr>)
     = (\<lparr>h_status = 400, h_body = ErrorBody ''Seller ID is required in live mode.''\<rparr>, [])"
proof -
  have fields: "POST remoteDown
     (Some \<lparr>rb_settings = None,
            rb_product = Some (sampleProduct\<lparr>p_description := Some [], p_shortDescription := None\<rparr>)\<rparr>)
     = (\<lparr>h_status = 400,
         h_body = ErrorBody ''Missing required product fields: description, shortDescription''\<rparr>,
        [])"
    using POST_enforces_preconditions[of
            "sampleProduct\<lparr>p_description := Some [], p_shortDescription := None\<rparr>"
            remoteDown None
            "\<lparr>s_apiKey = None, s_sellerId = None, s_baseUrl = None, s_mode = None\<rparr>"]
    by (simp add: sampleProduct_value)
  have credentials: "POST remoteDown
       (Some \<lparr>rb_settings = Some \<lparr>s_apiKey = Some ''key'', s_sellerId = Some [],
                                  s_baseUrl = None, s_mode = Some live\<rparr>,
              rb_product = Some sampleProduct\<rparr>)
     = (\<lparr>h_status = 400, h_body = ErrorBody ''Seller ID is required in live mode.''\<rparr>, [])"
    using POST_enforces_preconditions[of sampleProduct remoteDown None
            "\<lparr>s_apiKey = Some ''key'', s_sellerId = Some [], s_baseUrl = None,
              s_mode = Some live\<rparr>"]
    by (simp add: sampleProduct_value trim_def isWhiteSpace_def)
  show ?thesis
    using fields credentials by simp
qed

lemma first_three:
  "[elementAt (Some u) 0, elementAt (Some u) 1, elementAt (Some u) 2] = take 3 (u @ [[], [], []])"
proof (cases u)
  case Nil
  then show ?thesis by (simp add: elementAt_def)
next
  case u1: (Cons a v)
  show ?thesis
  proof (cases v)
    case Nil
    then show ?thesis using u1 by (simp add: elementAt_def)
  next
    case u2: (Cons b w)
    show ?thesis
    proof (cases w)
      case Nil
      then show ?thesis using u1 u2 by (simp add: elementAt_def)
    next
      case (Cons c z)
      then show ?thesis using u1 u2 by (simp add: elementAt_def)
    qed
  qed
qed

text \<open>
  Claim C8, as stated, fails: not every normalized record is accepted in simulate mode.
  The draft that has only a title, normalized and sent with the default settings (mode
  simulate), is answered with 400, since its two descriptions are empty.
\<close>

theorem POST_simulate_rejects_incomplete_record:
  "mode defaultSettings = simulate
   \<and> POST remoteDown (Some (requestBody defaultSettings (initialDraft\<lparr>title := ''Wire''\<rparr>)))
     = (\<lparr>h_status = 400,
         h_body = ErrorBody ''Missing required product fields: description, shortDescription''\<rparr>,
        [])"
  by (simp add: POST_def requestBody_def normalizeProduct_def defaultSettings_def initialDraft_def
      missingFields_def MINIMUM_FIELDS_def fieldValue_def Let_def)

text \<open>
  Claim C8, amended. For every product whose \<open>title\<close>, \<open>description\<close> and
  \<open>shortDescription\<close> are non-empty and settings with mode simulate, \<open>POST\<close> answers
  200 with the payload tagged simulated and makes no outbound call, and the payload
  satisfies the wire mapping: \<open>PRODUCT_NAME\<close> is the title, \<open>IMAGE1\<close> to \<open>IMAGE3\<close> are
  the first three image URLs, empty where there is none, \<open>KEY_FEATURES\<close> is the features
  joined with a pipe, \<open>KEYWORDS\<close> the keywords joined with commas, and \<open>CURRENCY_TYPE\<close>
  is \<open>INR\<close> when the currency is absent.
\<close>

theorem POST_simulate:
  "missingFields p = [] \<and> s_mode st = Some simulate \<longrightarrow>
     (\<exists>payload.
        POST remote (Some \<lparr>rb_settings = Some st, rb_product = Some p\<rparr>)
          = (\<lparr>h_status = 200, h_body = SimulatedBody payload\<rparr>, [])
        \<and> PRODUCT_NAME payload = p_title p
        \<and> [IMAGE1 payload, IMAGE2 payload, IMAGE3 payload]
            = take 3 (orDefault (p_imageUrls p) [] @ [[], [], []])
        \<and> KEY_FEATURES payload = join ''|'' (orDefault (p_features p) [])
        \<and> KEYWORDS payload = join '','' (orDefault (p_keywords p) [])
        \<and> CURRENCY_TYPE payload = (case p_currency p of None \<Rightarrow> ''INR'' | Some c \<Rightarrow> c))"
proof (intro impI)
  assume a: "missingFields p = [] \<and> s_mode st = Some simulate"
  let ?payload = "buildIndiaMartPayload p (normalizeSettings (Some st))"
  have post: "POST remote (Some \<lparr>rb_settings = Some st, rb_product = Some p\<rparr>)
          = (\<lparr>h_status = 200, h_body = SimulatedBody ?payload\<rparr>, [])"
    using a by (simp add: POST_def Let_def)
  have name: "PRODUCT_NAME ?payload = p_title p"
    by (simp add: buildIndiaMartPayload_def)
  have images: "[IMAGE1 ?payload, IMAGE2 ?payload, IMAGE3 ?payload]
            = take 3 (orDefault (p_imageUrls p) [] @ [[], [], []])"
  proof (cases "p_imageUrls p")
    case None
    then show ?thesis by (simp add: buildIndiaMartPayload_def elementAt_def)
  next
    case (Some urls)
    then show ?thesis
      using first_three[of urls] by (simp add: buildIndiaMartPayload_def)
  qed
  have feats: "KEY_FEATURES ?payload = join ''|'' (orDefault (p_features p) [])"
    by (cases "p_features p") (simp_all add: buildIndiaMartPayload_def)
  have keys: "KEYWORDS ?payload = join '','' (orDefault (p_keywords p) [])"
    by (cases "p_keywords p") (simp_all add: buildIndiaMartPayload_def)
  have cur: "CURRENCY_TYPE ?payload = (case p_currency p of None \<Rightarrow> ''INR'' | Some c \<Rightarrow> c)"
    by (cases "p_currency p") (simp_all add: buildIndiaMartPayload_def)
  show "\<exists>payload.
        POST remote (Some \<lparr>rb_settings = Some st, rb_product = Some p\<rparr>)
          = (\<lparr>h_status = 200, h_body = SimulatedBody payload\<rparr>, [])
        \<and> PRODUCT_NAME payload = p_title p
        \<and> [IMAGE1 payload, IMAGE2 payload, IMAGE3 payload]
            = take 3 (orDefault (p_imageUrls p) [] @ [[], [], []])
        \<and> KEY_FEATURES payload = join ''|'' (orDefault (p_features p) [])
        \<and> KEYWORDS payload = join '','' (orDefault (p_keywords p) [])
        \<and> CURRENCY_TYPE payload = (case p_currency p of None \<Rightarrow> ''INR'' | Some c \<Rightarrow> c)"
    using post name images feats keys cur by blast
qed


theorem POST_simulate_witness:
  "\<exists>payload.
     POST remoteDown
       (Some \<lparr>rb_settings = Some \<lparr>s_apiKey = None, s_sellerId = None, s_baseUrl = None,
                                  s_mode = Some simulate\<rparr>,
              rb_product = Some sampleProduct\<rparr>)
       = (\<lparr>h_status = 200, h_body = SimulatedBody payload\<rparr>, [])
     \<and> PRODUCT_NAME payload = ''Copper wire''
     \<and> [IMAGE1 payload, IMAGE2 payload, IMAGE3 payload] = [''a'', ''b'', ''c'']
     \<and> KEY_FEATURES payload = ''Pure copper|Flexible''
     \<and> KEYWORDS payload = ''wire,copper''
     \<and> CURRENCY_TYPE payload = ''INR''"
  using POST_simulate[of sampleProduct
          "\<lparr>s_apiKey = None, s_sellerId = None, s_baseUrl = None, s_mode = Some simulate\<rparr>"
          remoteDown]
        sampleProduct_valid
  by (simp add: sampleProduct_value)

text \<open>
  Claim C10. The credentials are trimmed before they are tested. For a product that has
  its three required fields, in live mode: an \<open>apiKey\<close> of white space only is refused
  as a missing API key; with an API key left after trimming, a \<open>sellerId\<close> of white space
  only is refused as a missing seller ID; with both left, the one outbound call carries
  the trimmed API key as its \<open>authtoken\<close> and goes to the trimmed \<open>baseUrl\<close>, or to the
  default endpoint when \<open>baseUrl\<close> is absent or white space only.
\<close>

theorem POST_trims_credentials:
  "missingFields p = [] \<and> s_mode st = Some live \<and> s_apiKey st = Some k \<longrightarrow>
     ((\<forall>c\<in>set k. isWhiteSpace c) \<longrightarrow>
        POST remote (Some \<lparr>rb_settings = Some st, rb_product = Some p\<rparr>)
          = (\<lparr>h_status = 400, h_body = ErrorBody ''API key is required in live mode.''\<rparr>, []))
     \<and> (trim k \<noteq> [] \<and> s_sellerId st = Some sid \<and> (\<forall>c\<in>set sid. isWhiteSpace c) \<longrightarrow>
        POST remote (Some \<lparr>rb_settings = Some st, rb_product = Some p\<rparr>)
          = (\<lparr>h_status = 400, h_body = ErrorBody ''Seller ID is required in live mode.''\<rparr>, []))
     \<and> (trim k \<noteq> [] \<and> s_sellerId st = Some sid \<and> trim sid \<noteq> [] \<longrightarrow>
        snd (POST remote (Some \<lparr>rb_settings = Some st, rb_product = Some p\<rparr>))
          = [\<lparr>o_endpoint = (case s_baseUrl st of
                             None \<Rightarrow> defaultEndpoint
                           | Some b \<Rightarrow> if trim b = [] then defaultEndpoint else trim b),
              o_authtoken = trim k,
              o_body = buildIndiaMartPayload p
                         \<lparr>s_apiKey = Some (trim k), s_sellerId = Some (trim sid),
                          s_baseUrl = map_option trim (s_baseUrl st), s_mode = Some live\<rparr>\<rparr>])
     \<and> (trim k \<noteq> [] \<and> s_sellerId st = Some sid \<and> trim sid \<noteq> []
          \<and> s_baseUrl st = Some b \<and> (\<forall>c\<in>set b. isWhiteSpace c) \<longrightarrow>
        map o_endpoint (snd (POST remote (Some \<lparr>rb_settings = Some st, rb_product = Some p\<rparr>)))
          = [defaultEndpoint])"
proof (intro impI)
  assume a: "missingFields p = [] \<and> s_mode st = Some live \<and> s_apiKey st = Some k"
  have ns: "normalizeSettings (Some st)
      = \<lparr>s_apiKey = Some (trim k), s_sellerId = map_option trim (s_sellerId st),
         s_baseUrl = map_option trim (s_baseUrl st), s_mode = Some live\<rparr>"
    using a by (simp add: normalizeSettings_def)
  have key: "POST remote (Some \<lparr>rb_settings = Some st, rb_product = Some p\<rparr>)
          = (\<lparr>h_status = 400, h_body = ErrorBody ''API key is required in live mode.''\<rparr>, [])"
    if "\<forall>c\<in>set k. isWhiteSpace c"
    using a trim_all_white[OF that] by (simp add: POST_def Let_def ns)
  have seller: "POST remote (Some \<lparr>rb_settings = Some st, rb_product = Some p\<rparr>)
          = (\<lparr>h_status = 400, h_body = ErrorBody ''Seller ID is required in live mode.''\<rparr>, [])"
    if "trim k \<noteq> [] \<and> s_sellerId st = Some sid \<and> (\<forall>c\<in>set sid. isWhiteSpace c)"
    using a that trim_all_white[of sid] by (simp add: POST_def Let_def ns)
  have call: "snd (POST remote (Some \<lparr>rb_settings = Some st, rb_product = Some p\<rparr>))
          = [\<lparr>o_endpoint = (case s_baseUrl st of
                             None \<Rightarrow> defaultEndpoint
                           | Some b \<Rightarrow> if trim b = [] then defaultEndpoint else trim b),
              o_authtoken = trim k,
              o_body = buildIndiaMartPayload p
                         \<lparr>s_apiKey = Some (trim k), s_sellerId = Some (trim sid),
                          s_baseUrl = map_option trim (s_baseUrl st), s_mode = Some live\<rparr>\<rparr>]"
    if "trim k \<noteq> [] \<and> s_sellerId st = Some sid \<and> trim sid \<noteq> []"
    using a that
    by (cases "s_baseUrl st") (simp_all add: POST_def Let_def ns orElse_def)
  have fallback: "map o_endpoint (snd (POST remote (Some \<lparr>rb_settings = Some st, rb_product = Some p\<rparr>)))
          = [defaultEndpoint]"
    if "trim k \<noteq> [] \<and> s_sellerId st = Some sid \<and> trim sid \<noteq> []
          \<and> s_baseUrl st = Some b \<and> (\<forall>c\<in>set b. isWhiteSpace c)"
    using call that trim_all_white[of b] by simp
  show "((\<forall>c\<in>set k. isWhiteSpace c) \<longrightarrow>
        POST remote (Some \<lparr>rb_settings = Some st, rb_product = Some p\<rparr>)
          = (\<lparr>h_status = 400, h_body = ErrorBody ''API key is required in live mode.''\<rparr>, []))
     \<and> (trim k \<noteq> [] \<and> s_sellerId st = Some sid \<and> (\<forall>c\<in>set sid. isWhiteSpace c) \<longrightarrow>
        POST remote (Some \<lparr>rb_settings = Some st, rb_product = Some p\<rparr>)
          = (\<lparr>h_status = 400, h_body = ErrorBody ''Seller ID is required in live mode.''\<rparr>, []))
     \<and> (trim k \<noteq> [] \<and> s_sellerId st = Some sid \<and> trim sid \<noteq> [] \<longrightarrow>
        snd (POST remote (Some \<lparr>rb_settings = Some st, rb_product = Some p\<rparr>))
          = [\<lparr>o_endpoint = (case s_baseUrl st of
                             None \<Rightarrow> defaultEndpoint
                           | Some b \<Rightarrow> if trim b = [] then defaultEndpoint else trim b),
              o_authtoken = trim k,
              o_body = buildIndiaMartPayload p
                         \<lparr>s_apiKey = Some (trim k), s_sellerId = Some (trim sid),
                          s_baseUrl = map_option trim (s_baseUrl st), s_mode = Some live\<rparr>\<rparr>])
     \<and> (trim k \<noteq> [] \<and> s_sellerId st = Some sid \<and> trim sid \<noteq> []
          \<and> s_baseUrl st = Some b \<and> (\<forall>c\<in>set b. isWhiteSpace c) \<longrightarrow>
        map o_endpoint (snd (POST remote (Some \<lparr>rb_settings = Some st, rb_product = Some p\<rparr>)))
          = [defaultEndpoint])"
    using key seller call fallback by blast
qed

theorem POST_trims_credentials_witness:
  "POST remoteDown
     (Some \<lparr>rb_settings = Some \<lparr>s_apiKey = Some ''  '', s_sellerId = Some ''x'',
                                s_baseUrl = Some ''  '', s_mode = Some live\<rparr>,
            rb_product = Some sampleProduct\<rparr>)
     = (\<lparr>h_status = 400, h_body = ErrorBody ''API key is required in live mode.''\<rparr>, [])
   \<and> map o_endpoint
       (snd (POST remoteDown
          (Some \<lparr>rb_settings = Some \<lparr>s_apiKey = Some '' k '', s_sellerId = Some ''x'',
                                     s_baseUrl = Some ''  '', s_mode = Some live\<rparr>,
                 rb_product = Some sampleProduct\<rparr>))) = [defaultEndpoint]
   \<and> map o_authtoken
       (snd (POST remoteDown
          (Some \<lparr>rb_settings = Some \<lparr>s_apiKey = Some '' k '', s_sellerId = Some ''x'',
                                     s_baseUrl = Some ''  '', s_mode = Some live\<rparr>,
                 rb_product = Some sampleProduct\<rparr>))) = [''k'']
   \<and> POST remoteDown
       (Some \<lparr>rb_settings = Some \<lparr>s_apiKey = Some '' k '', s_sellerId = Some '' '',
                                  s_baseUrl = None, s_mode = Some live\<rparr>,
              rb_product = Some sampleProduct\<rparr>)
     = (\<lparr>h_status = 400, h_body = ErrorBody ''Seller ID is required in live mode.''\<rparr>, [])"
proof -
  have first: "POST remoteDown
     (Some \<lparr>rb_settings = Some \<lparr>s_apiKey = Some ''  '', s_sellerId = Some ''x'',
                                s_baseUrl = Some ''  '', s_mode = Some live\<rparr>,
            rb_product = Some sampleProduct\<rparr>)
     = (\<lparr>h_status = 400, h_body = ErrorBody ''API key is required in live mode.''\<rparr>, [])"
    using POST_trims_credentials[of sampleProduct
            "\<lparr>s_apiKey = Some ''  '', s_sellerId = Some ''x'', s_baseUrl = Some ''  '',
              s_mode = Some live\<rparr>" "''  ''" remoteDown "''x''" "''  ''"]
          sampleProduct_valid
    by (simp add: isWhiteSpace_def)
  have second: "snd (POST remoteDown
          (Some \<lparr>rb_settings = Some \<lparr>s_apiKey = Some '' k '', s_sellerId = Some ''x'',
                                     s_baseUrl = Some ''  '', s_mode = Some live\<rparr>,
                 rb_product = Some sampleProduct\<rparr>))
      = [\<lparr>o_endpoint = defaultEndpoint, o_authtoken = ''k'',
          o_body = buildIndiaMartPayload sampleProduct
                     \<lparr>s_apiKey = Some ''k'', s_sellerId = Some ''x'',
                      s_baseUrl = Some [], s_mode = Some live\<rparr>\<rparr>]"
    using POST_trims_credentials[of sampleProduct
            "\<lparr>s_apiKey = Some '' k '', s_sellerId = Some ''x'', s_baseUrl = Some ''  '',
              s_mode = Some live\<rparr>" "'' k ''" remoteDown "''x''" "''  ''"]
          sampleProduct_valid
    by (simp add: trim_def isWhiteSpace_def)
  have third: "POST remoteDown
       (Some \<lparr>rb_settings = Some \<lparr>s_apiKey = Some '' k '', s_sellerId = Some '' '',
                                  s_baseUrl = None, s_mode = Some live\<rparr>,
              rb_product = Some sampleProduct\<rparr>)
     = (\<lparr>h_status = 400, h_body = ErrorBody ''Seller ID is required in live mode.''\<rparr>, [])"
    using POST_trims_credentials[of sampleProduct
            "\<lparr>s_apiKey = Some '' k '', s_sellerId = Some '' '', s_baseUrl = None,
              s_mode = Some live\<rparr>" "'' k ''" remoteDown "'' ''" "[]"]
          sampleProduct_valid
    by (simp add: trim_def isWhiteSpace_def)
  show ?thesis
    using first second third by simp
qed

lemma appendLog_simps [simp]:
  "settings (appendLog lv hl dt s) = settings s"
  "draft (appendLog lv hl dt s) = draft s"
  "queue (appendLog lv hl dt s) = queue s"
  "processing (appendLog lv hl dt s) = processing s"
  "activeProductId (appendLog lv hl dt s) = activeProductId s"
  "inflight (appendLog lv hl dt s) = inflight s"
  "timers (appendLog lv hl dt s) = timers s"
  "entropy (appendLog lv hl dt s) = entropy s"
  "clock (appendLog lv hl dt s) = clock s"
  "ticks (appendLog lv hl dt s) = Suc (Suc (ticks s))"
  "logs (appendLog lv hl dt s) =
     logs s @ [\<lparr>lid = entropy s (ticks s), level = lv, headline = hl, details = dt,
                timestamp = clock s (Suc (ticks s))\<rparr>]"
  by (simp_all add: appendLog_def makeId_def dateNow_def)

lemma countLogs_appendLog [simp]:
  "countLogs P (appendLog lv hl dt s) = countLogs P s + (if P lv hl then 1 else 0)"
  by (simp add: countLogs_def)

lemma countLogs_update [simp]:
  "countLogs P (s\<lparr>queue := q\<rparr>) = countLogs P s"
  "countLogs P (s\<lparr>processing := b\<rparr>) = countLogs P s"
  "countLogs P (s\<lparr>activeProductId := a\<rparr>) = countLogs P s"
  "countLogs P (s\<lparr>inflight := fl\<rparr>) = countLogs P s"
  "countLogs P (s\<lparr>timers := n\<rparr>) = countLogs P s"
  "countLogs P (s\<lparr>draft := d\<rparr>) = countLogs P s"
  "countLogs P (s\<lparr>ticks := t\<rparr>) = countLogs P s"
  by (simp_all add: countLogs_def)

lemma refsOf_simps [simp]:
  "queueRef (refsOf s) = queue s"
  "processingRef (refsOf s) = processing s"
  "activeProductRef (refsOf s) = activeProductId s"
  by (simp_all add: refsOf_def)

lemma truthy_simps [simp]:
  "truthy None = False"
  "truthy (Some x) = (x \<noteq> [])"
  by (simp_all add: truthy_def)

lemma pNP_idle [simp]: "\<not> processingRef r \<Longrightarrow> processNextProduct r s = s"
  by (simp add: processNextProduct_def)

lemma pNP_busy [simp]: "truthy (activeProductRef r) \<Longrightarrow> processNextProduct r s = s"
  by (simp add: processNextProduct_def)

lemma pNP_empty:
  assumes "processingRef r" "\<not> truthy (activeProductRef r)" "queueRef r = []"
  shows "processNextProduct r s =
           appendLog success ''Queue complete'' (Some ''All products processed successfully.'')
             (s\<lparr>processing := False\<rparr>)"
  using assms by (simp add: processNextProduct_def)

lemma pNP_dispatch_eq:
  assumes "processingRef r" "\<not> truthy (activeProductRef r)" "queueRef r = x # xs"
  shows "processNextProduct r s =
           (appendLog info (''Processing: '' @ orElse (title (payload x)) ''Untitled product'')
              (Some (''Attempting IndiaMART sync in ''
                     @ (if mode (settings s) = simulate then ''simulation'' else ''live'')
                     @ '' mode.''))
              (s\<lparr>activeProductId := Some (pid x)\<rparr>))
           \<lparr>inflight := inflight s @ [\<lparr>fl_next = x, fl_settings = settings s\<rparr>]\<rparr>"
  using assms by (simp add: processNextProduct_def Let_def)

lemma Processing_prefix [simp]: "take 12 (''Processing: '' @ x) = ''Processing: ''"
  by simp

lemma pNP_dispatch:
  assumes "processingRef r" "\<not> truthy (activeProductRef r)" "queueRef r = x # xs"
  shows "processing (processNextProduct r s) = processing s"
    and "activeProductId (processNextProduct r s) = Some (pid x)"
    and "inflight (processNextProduct r s) = inflight s @ [\<lparr>fl_next = x, fl_settings = settings s\<rparr>]"
    and "terminalEvents (processNextProduct r s) = terminalEvents s"
    and "errorEvents (processNextProduct r s) = errorEvents s"
    and "queueCompleteEvents (processNextProduct r s) = queueCompleteEvents s"
    and "dispatchesBegun (processNextProduct r s) = Suc (dispatchesBegun s)"
  unfolding pNP_dispatch_eq[OF assms]
  by (simp_all add: terminalEvents_def errorEvents_def queueCompleteEvents_def dispatchesBegun_def)

lemma pNP_frame [simp]:
  "queue (processNextProduct r s) = queue s"
  "settings (processNextProduct r s) = settings s"
  "draft (processNextProduct r s) = draft s"
  "timers (processNextProduct r s) = timers s"
  "entropy (processNextProduct r s) = entropy s"
proof -
  consider "\<not> processingRef r" | "truthy (activeProductRef r)"
    | "processingRef r" "\<not> truthy (activeProductRef r)" "queueRef r = []"
    | x xs where "processingRef r" "\<not> truthy (activeProductRef r)" "queueRef r = x # xs"
    by (cases "queueRef r") auto
  then have "queue (processNextProduct r s) = queue s
      \<and> settings (processNextProduct r s) = settings s
      \<and> draft (processNextProduct r s) = draft s
      \<and> timers (processNextProduct r s) = timers s
      \<and> entropy (processNextProduct r s) = entropy s"
  proof cases
    case 1
    then show ?thesis by simp
  next
    case 2
    then show ?thesis by simp
  next
    case 3
    then show ?thesis by (simp add: pNP_empty)
  next
    case 4
    then show ?thesis by (simp add: pNP_dispatch_eq)
  qed
  then show "queue (processNextProduct r s) = queue s"
    "settings (processNextProduct r s) = settings s"
    "draft (processNextProduct r s) = draft s"
    "timers (processNextProduct r s) = timers s"
    "entropy (processNextProduct r s) = entropy s"
    by simp_all
qed

lemma pNP_processing: "processing (processNextProduct r s) \<Longrightarrow> processing s"
  by (cases "processingRef r"; cases "truthy (activeProductRef r)"; cases "queueRef r")
     (simp_all add: pNP_empty pNP_dispatch)

lemma commit_frame [simp]:
  "queue (commit qs b s) = queue s"
  "settings (commit qs b s) = settings s"
  "draft (commit qs b s) = draft s"
  "timers (commit qs b s) = timers s"
  "entropy (commit qs b s) = entropy s"
  by (simp_all add: commit_def Let_def)

lemma commit_idle [simp]: "\<not> processing s \<Longrightarrow> commit qs b s = s"
  by (simp add: commit_def Let_def)

lemma commit_no_effect [simp]: "processing s = processing b \<Longrightarrow> commit False b s = s"
  by (simp add: commit_def Let_def)

lemma commit_busy [simp]:
  "processing s = processing b \<Longrightarrow> truthy (activeProductId s) \<Longrightarrow> commit qs b s = s"
  by (simp add: commit_def Let_def)

text \<open>addToQueue\<close>

lemma addToQueue_simps [simp]:
  "settings (addToQueue r p s) = settings s"
  "draft (addToQueue r p s) = draft s"
  "queue (addToQueue r p s)
     = queue s @ [\<lparr>pid = entropy s (ticks s), createdAt = clock s (Suc (ticks s)), payload = p\<rparr>]"
  "processing (addToQueue r p s) = (processing s \<or> (autoStart (settings s) \<and> \<not> processingRef r))"
  "activeProductId (addToQueue r p s) = activeProductId s"
  "inflight (addToQueue r p s) = inflight s"
  "timers (addToQueue r p s) = timers s"
  "entropy (addToQueue r p s) = entropy s"
  "clock (addToQueue r p s) = clock s"
  "ticks (addToQueue r p s) = ticks s + 4"
  by (auto simp add: addToQueue_def makeId_def dateNow_def Let_def)

lemma countLogs_addToQueue [simp]:
  "countLogs P (addToQueue r p s)
     = countLogs P s + (if P info (''Product queued: '' @ orElse (title p) ''Untitled'') then 1 else 0)"
  by (simp add: addToQueue_def makeId_def dateNow_def Let_def)

text \<open>Idle states\<close>

lemma completeDispatch_out_of_range [simp]:
  "\<not> k < length (inflight s) \<Longrightarrow> completeDispatch k t w s = s"
  by (simp add: completeDispatch_def)

lemma logOutcome_eq:
  "logOutcome st nxt outcome s
     = appendLog (outcomeLevel outcome) (outcomeHeadline nxt outcome)
         (Some (outcomeDetails st outcome)) s"
  by (cases outcome)
     (simp_all add: logOutcome_def outcomeLevel_def outcomeHeadline_def outcomeDetails_def)

lemma outcomeLevel_not_info [simp]: "outcomeLevel outcome \<noteq> info"
  by (cases outcome) (simp_all add: outcomeLevel_def)

lemma outcomeLevel_terminal [simp]:
  "outcomeLevel outcome = success \<or> outcomeLevel outcome = error"
  by (cases outcome) (simp_all add: outcomeLevel_def)

lemma outcomeHeadline_not_complete [simp]: "outcomeHeadline nxt outcome \<noteq> ''Queue complete''"
  by (cases outcome) (simp_all add: outcomeHeadline_def)

lemma completeDispatch_eq:
  "k < length (inflight s) \<Longrightarrow>
   completeDispatch k t w s = commit True s (afterOutcome k t w s)"
  by (simp add: completeDispatch_def afterOutcome_def Let_def logOutcome_eq)

lemma afterOutcome_simps [simp]:
  "settings (afterOutcome k t w s) = settings s"
  "draft (afterOutcome k t w s) = draft s"
  "entropy (afterOutcome k t w s) = entropy s"
  "processing (afterOutcome k t w s) = processing s"
  "activeProductId (afterOutcome k t w s) = None"
  "timers (afterOutcome k t w s) = Suc (timers s)"
  "inflight (afterOutcome k t w s) = take k (inflight s) @ drop (Suc k) (inflight s)"
  by (simp_all add: afterOutcome_def logOutcome_eq)

lemma afterOutcome_queue:
  "queue (afterOutcome k t w s)
     = filter (\<lambda>item. pid item \<noteq> pid (fl_next (inflight s ! k))) (queue s)"
  by (simp add: afterOutcome_def logOutcome_eq)

lemma countLogs_afterOutcome:
  "countLogs P (afterOutcome k t w s)
     = countLogs P s
       + (if P (outcomeLevel (dispatchOutcome t w (fl_settings (inflight s ! k))
                                (payload (fl_next (inflight s ! k)))))
               (outcomeHeadline (fl_next (inflight s ! k))
                  (dispatchOutcome t w (fl_settings (inflight s ! k))
                     (payload (fl_next (inflight s ! k)))))
          then 1 else 0)"
  by (simp add: afterOutcome_def logOutcome_eq)

lemma afterOutcome_counts [simp]:
  "terminalEvents (afterOutcome k t w s) = Suc (terminalEvents s)"
  "queueCompleteEvents (afterOutcome k t w s) = queueCompleteEvents s"
  "dispatchesBegun (afterOutcome k t w s) = dispatchesBegun s"
  by (simp_all add: terminalEvents_def queueCompleteEvents_def dispatchesBegun_def
      countLogs_afterOutcome)

lemma completeDispatch_frame [simp]:
  "settings (completeDispatch k t w s) = settings s"
  "draft (completeDispatch k t w s) = draft s"
  "entropy (completeDispatch k t w s) = entropy s"
  by (cases "k < length (inflight s)"; simp add: completeDispatch_eq)+

lemma completeDispatch_queue:
  "k < length (inflight s) \<Longrightarrow>
   queue (completeDispatch k t w s)
     = filter (\<lambda>item. pid item \<noteq> pid (fl_next (inflight s ! k))) (queue s)"
  by (simp add: completeDispatch_eq afterOutcome_queue)

lemma completeDispatch_idle:
  assumes "\<not> processing s" "k < length (inflight s)"
  shows "\<not> processing (completeDispatch k t w s)"
    and "activeProductId (completeDispatch k t w s) = None"
    and "inflight (completeDispatch k t w s) = take k (inflight s) @ drop (Suc k) (inflight s)"
    and "timers (completeDispatch k t w s) = Suc (timers s)"
    and "terminalEvents (completeDispatch k t w s) = Suc (terminalEvents s)"
    and "dispatchesBegun (completeDispatch k t w s) = dispatchesBegun s"
    and "queueCompleteEvents (completeDispatch k t w s) = queueCompleteEvents s"
  using assms by (simp_all add: completeDispatch_eq)

lemma timerFire_idle:
  assumes "\<not> processing s"
  shows "\<not> processing (timerFire s)"
    and "activeProductId (timerFire s) = activeProductId s"
    and "inflight (timerFire s) = inflight s"
    and "queue (timerFire s) = queue s"
    and "countLogs P (timerFire s) = countLogs P s"
  using assms by (simp_all add: timerFire_def Let_def)

lemma stopAgent_simps [simp]:
  "\<not> processing (stopAgent s)"
  "activeProductId (stopAgent s) = None"
  "inflight (stopAgent s) = inflight s"
  "queue (stopAgent s) = queue s"
  "timers (stopAgent s) = timers s"
  "settings (stopAgent s) = settings s"
  "draft (stopAgent s) = draft s"
  "countLogs P (stopAgent s) = countLogs P s + (if P info ''Agent paused'' then 1 else 0)"
  by (simp_all add: stopAgent_def)

lemma handleDraftChange_simps [simp]:
  "processing (handleDraftChange key v s) = processing s"
  "activeProductId (handleDraftChange key v s) = activeProductId s"
  "inflight (handleDraftChange key v s) = inflight s"
  "queue (handleDraftChange key v s) = queue s"
  "timers (handleDraftChange key v s) = timers s"
  "settings (handleDraftChange key v s) = settings s"
  "entropy (handleDraftChange key v s) = entropy s"
  "ticks (handleDraftChange key v s) = ticks s"
  "countLogs P (handleDraftChange key v s) = countLogs P s"
  by (simp_all add: handleDraftChange_def)

lemma not_Processing_prefix [simp]:
  "take 12 (''Product queued: '' @ x) \<noteq> ''Processing: ''"
  by simp

lemma handleAddDraftToQueue_idle:
  assumes "\<not> processing s" "\<not> autoStart (settings s)"
  shows "\<not> processing (handleAddDraftToQueue s)"
    and "activeProductId (handleAddDraftToQueue s) = activeProductId s"
    and "inflight (handleAddDraftToQueue s) = inflight s"
    and "dispatchesBegun (handleAddDraftToQueue s) = dispatchesBegun s"
    and "settings (handleAddDraftToQueue s) = settings s"
  using assms
  by (simp_all add: handleAddDraftToQueue_def resetDraft_def dispatchesBegun_def)

lemma filter_other_ids:
  "distinct (map pid (x # xs)) \<Longrightarrow> filter (\<lambda>item. pid item \<noteq> pid x) (x # xs) = xs"
  by (auto simp: filter_id_conv) (metis imageI)

lemma dispatching_inflight:
  assumes "dispatching s" "queue s = x # xs"
  shows "length (inflight s) = 1" "fl_next (inflight s ! 0) = x" "processing s"
    "distinct (map pid (x # xs))" "\<forall>i\<in>set (x # xs). pid i \<noteq> []"
  using assms by (auto simp: dispatching_def)

lemma dispatching_complete_last:
  assumes d: "dispatching s" and q: "queue s = [x]"
  shows "drained (completeDispatch 0 t w s)"
    and "0 < timers (completeDispatch 0 t w s)"
    and "terminalEvents (completeDispatch 0 t w s) = Suc (terminalEvents s)"
    and "queueCompleteEvents (completeDispatch 0 t w s) = queueCompleteEvents s"
proof -
  note fl = dispatching_inflight[OF d q]
  have rest: "queue (afterOutcome 0 t w s) = []"
    unfolding afterOutcome_queue fl(2) q using filter_other_ids[OF fl(4)] by simp
  have eq: "completeDispatch 0 t w s = afterOutcome 0 t w s"
    using fl rest by (simp add: completeDispatch_eq commit_def Let_def)
  show "drained (completeDispatch 0 t w s)"
    using fl rest by (simp add: eq drained_def)
  show "0 < timers (completeDispatch 0 t w s)"
    by (simp add: eq)
  show "terminalEvents (completeDispatch 0 t w s) = Suc (terminalEvents s)"
    by (simp add: eq)
  show "queueCompleteEvents (completeDispatch 0 t w s) = queueCompleteEvents s"
    by (simp add: eq)
qed

lemma dispatching_complete_more:
  assumes d: "dispatching s" and q: "queue s = x # y # ys"
  shows "dispatching (completeDispatch 0 t w s)"
    and "queue (completeDispatch 0 t w s) = y # ys"
    and "terminalEvents (completeDispatch 0 t w s) = Suc (terminalEvents s)"
    and "queueCompleteEvents (completeDispatch 0 t w s) = queueCompleteEvents s"
proof -
  note fl = dispatching_inflight[OF d q]
  let ?s2 = "afterOutcome 0 t w s"
  have rest: "queue ?s2 = y # ys"
    unfolding afterOutcome_queue fl(2) q by (rule filter_other_ids[OF fl(4)])
  have r: "processingRef (refsOf ?s2)" "\<not> truthy (activeProductRef (refsOf ?s2))"
          "queueRef (refsOf ?s2) = y # ys"
    using fl rest by simp_all
  have eq: "completeDispatch 0 t w s = processNextProduct (refsOf ?s2) ?s2"
    using fl rest by (simp add: completeDispatch_eq commit_def Let_def)
  show "queue (completeDispatch 0 t w s) = y # ys"
    by (simp add: eq rest)
  show "dispatching (completeDispatch 0 t w s)"
    using fl pNP_dispatch(1-3)[OF r, of ?s2] rest
    by (simp add: eq dispatching_def)
  show "terminalEvents (completeDispatch 0 t w s) = Suc (terminalEvents s)"
    using pNP_dispatch(4)[OF r, of ?s2] by (simp add: eq)
  show "queueCompleteEvents (completeDispatch 0 t w s) = queueCompleteEvents s"
    using pNP_dispatch(6)[OF r, of ?s2] by (simp add: eq)
qed

lemma dispatching_timerFire:
  assumes d: "dispatching s"
  shows "dispatching (timerFire s)"
    and "queue (timerFire s) = queue s"
    and "countLogs P (timerFire s) = countLogs P s"
proof -
  obtain x xs where q: "queue s = x # xs"
    using d by (cases "queue s") (auto simp: dispatching_def)
  have a: "truthy (activeProductId s)" "processing s"
    using d q by (auto simp: dispatching_def)
  have eq: "timerFire s = (if timers s = 0 then s else s\<lparr>timers := timers s - 1\<rparr>)"
    using a by (simp add: timerFire_def Let_def)
  show "dispatching (timerFire s)"
    using d q by (simp add: eq dispatching_def)
  show "queue (timerFire s) = queue s"
    by (simp add: eq)
  show "countLogs P (timerFire s) = countLogs P s"
    by (simp add: eq)
qed

lemma drained_timerFire:
  assumes d: "drained s" and t: "0 < timers s"
  shows "idleEmpty (timerFire s)"
    and "terminalEvents (timerFire s) = Suc (terminalEvents s)"
    and "queueCompleteEvents (timerFire s) = Suc (queueCompleteEvents s)"
proof -
  have r: "processingRef (refsOf s)" "\<not> truthy (activeProductRef (refsOf s))"
    "queueRef (refsOf s) = []"
    using d by (simp_all add: drained_def)
  have eq: "timerFire s
      = appendLog success ''Queue complete'' (Some ''All products processed successfully.'')
          (s\<lparr>timers := timers s - 1, processing := False\<rparr>)"
    using d t by (simp add: timerFire_def Let_def pNP_empty[OF r] drained_def)
  show "idleEmpty (timerFire s)"
    using d by (simp add: eq idleEmpty_def drained_def)
  show "terminalEvents (timerFire s) = Suc (terminalEvents s)"
    by (simp add: eq terminalEvents_def)
  show "queueCompleteEvents (timerFire s) = Suc (queueCompleteEvents s)"
    by (simp add: eq queueCompleteEvents_def)
qed

lemma idleEmpty_step:
  assumes i: "idleEmpty s" and e: "environmentEvent e"
  shows "idleEmpty (step e s)"
    and "countLogs P (step e s) = countLogs P s"
proof -
  have "idleEmpty (step e s) \<and> countLogs P (step e s) = countLogs P s"
  proof (cases e)
    case (Complete k t w)
    then show ?thesis using i by (simp add: idleEmpty_def)
  next
    case TimerFire
    then show ?thesis
      using i timerFire_idle[of s] by (simp add: idleEmpty_def)
  qed (use e in simp_all)
  then show "idleEmpty (step e s)" "countLogs P (step e s) = countLogs P s"
    by simp_all
qed

lemma drainInv_step:
  assumes inv: "drainInv K Q s" and e: "environmentEvent e"
  shows "drainInv K Q (step e s)"
proof -
  consider (busy) "dispatching s" "terminalEvents s + length (queue s) = K" "queueCompleteEvents s = Q"
    | (wait) "drained s" "terminalEvents s = K" "queueCompleteEvents s = Q"
    | (idle) "idleEmpty s" "terminalEvents s = Suc K" "queueCompleteEvents s = Suc Q"
    using inv by (auto simp: drainInv_def)
  then show ?thesis
  proof cases
    case busy
    obtain x xs where q: "queue s = x # xs"
      using busy(1) by (cases "queue s") (auto simp: dispatching_def)
    note fl = dispatching_inflight[OF busy(1) q]
    show ?thesis
    proof (cases e)
      case (Complete k t w)
      show ?thesis
      proof (cases "k = 0")
        case True
        show ?thesis
        proof (cases xs)
          case Nil
          then show ?thesis
            using dispatching_complete_last[OF busy(1), of x t w] q busy Complete True
            by (simp add: drainInv_def drained_def)
        next
          case (Cons y ys)
          then show ?thesis
            using dispatching_complete_more[OF busy(1), of x y ys t w] q busy Complete True
            by (simp add: drainInv_def)
        qed
      next
        case False
        then show ?thesis
          using fl inv Complete by simp
      qed
    next
      case TimerFire
      then show ?thesis
        using dispatching_timerFire[OF busy(1)] busy
        by (simp add: drainInv_def terminalEvents_def queueCompleteEvents_def)
    qed (use e in simp_all)
  next
    case wait
    show ?thesis
    proof (cases e)
      case (Complete k t w)
      then show ?thesis using wait(1) inv by (simp add: drained_def)
    next
      case TimerFire
      show ?thesis
      proof (cases "timers s = 0")
        case True
        then show ?thesis using inv TimerFire by (simp add: timerFire_def)
      next
        case False
        then show ?thesis
          using drained_timerFire[OF wait(1)] wait TimerFire by (simp add: drainInv_def)
      qed
    qed (use e in simp_all)
  next
    case idle
    then show ?thesis
      using idleEmpty_step[OF idle(1) e]
      by (simp add: drainInv_def terminalEvents_def queueCompleteEvents_def)
  qed
qed

lemma run_Nil [simp]: "run [] s = s"
  by (simp add: run_def)

lemma run_Cons [simp]: "run (e # es) s = run es (step e s)"
  by (simp add: run_def)

lemma run_append [simp]: "run (es @ es') s = run es' (run es s)"
  by (simp add: run_def)

lemma drainInv_run:
  "drainInv K Q s \<Longrightarrow> \<forall>e\<in>set es. environmentEvent e \<Longrightarrow> drainInv K Q (run es s)"
  by (induction es arbitrary: s) (simp_all add: drainInv_step)

lemma drainInv_idle:
  assumes "drainInv K Q s" "\<not> processing s"
  shows "queue s = []" "terminalEvents s = Suc K" "queueCompleteEvents s = Suc Q"
  using assms by (auto simp: drainInv_def dispatching_def drained_def idleEmpty_def)

lemma draft_overwritten:
  "r\<lparr>title := title d, category := category d, price := price d, currency := currency d,
     unit := unit d, stock := stock d, minOrderQty := minOrderQty d,
     keywords_text := keywords_text d, imageUrls := imageUrls d,
     shortDescription := shortDescription d, description := description d,
     features := features d, packaging := packaging d, leadTime := leadTime d\<rparr>
   = (d :: ProductDraft)"
  by (cases r, cases d) simp

lemma run_submitDraft: "run (submitDraft d) s = handleAddDraftToQueue (s\<lparr>draft := d\<rparr>)"
  by (simp add: submitDraft_def handleDraftChange_def draft_overwritten)

lemma submit_idle:
  assumes "\<not> processing s" "\<not> autoStart (settings s)" "title d \<noteq> []"
  shows "handleAddDraftToQueue (s\<lparr>draft := d\<rparr>)
           = resetDraft (addToQueue (refsOf (s\<lparr>draft := d\<rparr>)) d (s\<lparr>draft := d\<rparr>))"
  using assms by (simp add: handleAddDraftToQueue_def resetDraft_def)

lemma submit_idle_fields:
  assumes "\<not> processing s" "\<not> autoStart (settings s)" "title d \<noteq> []"
  shows "\<not> processing (run (submitDraft d) s)"
    and "settings (run (submitDraft d) s) = settings s"
    and "queue (run (submitDraft d) s)
           = queue s @ [\<lparr>pid = entropy s (ticks s), createdAt = clock s (Suc (ticks s)), payload = d\<rparr>]"
    and "activeProductId (run (submitDraft d) s) = activeProductId s"
    and "inflight (run (submitDraft d) s) = inflight s"
    and "entropy (run (submitDraft d) s) = entropy s"
    and "ticks (run (submitDraft d) s) = ticks s + 4"
    and "terminalEvents (run (submitDraft d) s) = terminalEvents s"
    and "queueCompleteEvents (run (submitDraft d) s) = queueCompleteEvents s"
  using assms
  by (simp_all add: run_submitDraft submit_idle resetDraft_def terminalEvents_def
      queueCompleteEvents_def)

lemma enqueues_Cons: "enqueues (d # ds) = submitDraft d @ enqueues ds"
  by (simp add: enqueues_def)

lemma enqueues_idle:
  assumes "\<not> processing s" "\<not> autoStart (settings s)" "\<forall>d\<in>set ds. title d \<noteq> []"
  shows "\<not> processing (run (enqueues ds) s)
     \<and> map payload (queue (run (enqueues ds) s)) = map payload (queue s) @ ds
     \<and> map pid (queue (run (enqueues ds) s))
         = map pid (queue s) @ map (\<lambda>k. entropy s (ticks s + 4 * k)) [0..<length ds]
     \<and> activeProductId (run (enqueues ds) s) = activeProductId s
     \<and> inflight (run (enqueues ds) s) = inflight s
     \<and> terminalEvents (run (enqueues ds) s) = terminalEvents s
     \<and> queueCompleteEvents (run (enqueues ds) s) = queueCompleteEvents s"
  using assms
proof (induction ds arbitrary: s)
  case Nil
  then show ?case by (simp add: enqueues_def)
next
  case (Cons d ds)
  let ?s1 = "run (submitDraft d) s"
  have d: "title d \<noteq> []" and ds: "\<forall>d\<in>set ds. title d \<noteq> []"
    using Cons.prems(3) by simp_all
  note f = submit_idle_fields[OF Cons.prems(1,2) d]
  have ih: "\<not> processing (run (enqueues ds) ?s1)
     \<and> map payload (queue (run (enqueues ds) ?s1)) = map payload (queue ?s1) @ ds
     \<and> map pid (queue (run (enqueues ds) ?s1))
         = map pid (queue ?s1) @ map (\<lambda>k. entropy ?s1 (ticks ?s1 + 4 * k)) [0..<length ds]
     \<and> activeProductId (run (enqueues ds) ?s1) = activeProductId ?s1
     \<and> inflight (run (enqueues ds) ?s1) = inflight ?s1
     \<and> terminalEvents (run (enqueues ds) ?s1) = terminalEvents ?s1
     \<and> queueCompleteEvents (run (enqueues ds) ?s1) = queueCompleteEvents ?s1"
    using Cons.IH[of ?s1] f(1,2) Cons.prems(2) ds by simp
  have shift: "map (\<lambda>k. entropy s (ticks s + 4 * k)) [0..<Suc (length ds)]
      = entropy s (ticks s) # map (\<lambda>k. entropy s (ticks s + 4 + 4 * k)) [0..<length ds]"
    by (simp add: upt_conv_Cons map_Suc_upt[symmetric] add.assoc del: upt_Suc)
  show ?case
    using ih shift by (simp add: enqueues_Cons f)
qed

lemma runAgent_empty:
  assumes "\<not> processing s" "queue s = []"
  shows "runAgent s = appendLog info ''Queue empty'' (Some ''No products waiting in the queue.'') s"
  using assms by (simp add: runAgent_def Let_def)

lemma runAgent_starts:
  assumes idle: "\<not> processing s" "activeProductId s = None" "inflight s = []"
    and q: "queue s = x # xs"
    and ids: "distinct (map pid (queue s))" "\<forall>i\<in>set (queue s). pid i \<noteq> []"
  shows "dispatching (runAgent s)"
    and "queue (runAgent s) = queue s"
    and "terminalEvents (runAgent s) = terminalEvents s"
    and "queueCompleteEvents (runAgent s) = queueCompleteEvents s"
proof -
  let ?s1 = "s\<lparr>processing := True\<rparr>"
  have r: "processingRef (refsOf ?s1)" "\<not> truthy (activeProductRef (refsOf ?s1))"
    "queueRef (refsOf ?s1) = x # xs"
    using idle q by simp_all
  have eq: "runAgent s = processNextProduct (refsOf ?s1) ?s1"
    using idle q by (simp add: runAgent_def commit_def Let_def)
  show "queue (runAgent s) = queue s"
    by (simp add: eq)
  show "dispatching (runAgent s)"
    using pNP_dispatch(1-3)[OF r, of ?s1] idle q ids by (simp add: eq dispatching_def)
  show "terminalEvents (runAgent s) = terminalEvents s"
    using pNP_dispatch(4)[OF r, of ?s1] by (simp add: eq terminalEvents_def)
  show "queueCompleteEvents (runAgent s) = queueCompleteEvents s"
    using pNP_dispatch(6)[OF r, of ?s1] by (simp add: eq queueCompleteEvents_def)
qed

lemma answers_environment: "\<forall>e\<in>set (answers outcomes @ [TimerFire]). environmentEvent e"
  by (auto simp: answers_def)

lemma dispatching_drains:
  "dispatching s \<Longrightarrow> length outcomes = length (queue s) \<Longrightarrow>
   \<not> processing (run (answers outcomes @ [TimerFire]) s)"
proof (induction outcomes arbitrary: s)
  case Nil
  then show ?case by (simp add: dispatching_def split: list.splits)
next
  case (Cons o1 os)
  obtain t w where o1: "o1 = (t, w)" by (cases o1)
  obtain x xs where q: "queue s = x # xs"
    using Cons.prems by (cases "queue s") auto
  show ?case
  proof (cases xs)
    case Nil
    then have os: "os = []" using Cons.prems q by simp
    have "idleEmpty (timerFire (completeDispatch 0 t w s))"
      using dispatching_complete_last[OF Cons.prems(1), of x t w] q Nil
      by (simp add: drained_timerFire)
    then show ?thesis
      by (simp add: answers_def o1 os idleEmpty_def)
  next
    case (Cons y ys)
    have "\<not> processing (run (answers os @ [TimerFire]) (completeDispatch 0 t w s))"
      using dispatching_complete_more[OF Cons.prems(1), of x y ys t w] q Cons
        Cons.prems(2) Cons.IH[of "completeDispatch 0 t w s"]
      by simp
    then show ?thesis
      by (simp add: answers_def o1)
  qed
qed

lemma distinct_ids:
  "inj f \<Longrightarrow> distinct (map (\<lambda>k. f (t + 4 * k)) [0..<n])"
  by (fastforce simp: distinct_map inj_on_def inj_def)

text \<open>The drain after start, from an idle console.\<close>

lemma drain_after_start:
  assumes idle: "\<not> processing s" "activeProductId s = None" "inflight s = []"
    and ids: "distinct (map pid (queue s))" "\<forall>i\<in>set (queue s). pid i \<noteq> []"
  shows "\<forall>e\<in>set es. environmentEvent e \<Longrightarrow> \<not> processing (run es (runAgent s)) \<Longrightarrow>
           queue (run es (runAgent s)) = []
           \<and> terminalEvents (run es (runAgent s))
               = terminalEvents s + length (queue s) + (if queue s = [] then 0 else 1)
           \<and> queueCompleteEvents (run es (runAgent s))
               = queueCompleteEvents s + (if queue s = [] then 0 else 1)"
    and "length outcomes = length (queue s) \<Longrightarrow>
           \<not> processing (run (answers outcomes @ [TimerFire]) (runAgent s))"
proof -
  show "queue (run es (runAgent s)) = []
           \<and> terminalEvents (run es (runAgent s))
               = terminalEvents s + length (queue s) + (if queue s = [] then 0 else 1)
           \<and> queueCompleteEvents (run es (runAgent s))
               = queueCompleteEvents s + (if queue s = [] then 0 else 1)"
    if env: "\<forall>e\<in>set es. environmentEvent e" and fin: "\<not> processing (run es (runAgent s))"
  proof (cases "queue s")
    case Nil
    have start: "idleEmpty (runAgent s)" "terminalEvents (runAgent s) = terminalEvents s"
      "queueCompleteEvents (runAgent s) = queueCompleteEvents s"
      using idle Nil
      by (simp_all add: runAgent_empty idleEmpty_def terminalEvents_def queueCompleteEvents_def)
    have "idleEmpty (run es (runAgent s)) \<and> terminalEvents (run es (runAgent s)) = terminalEvents s
        \<and> queueCompleteEvents (run es (runAgent s)) = queueCompleteEvents s"
      using env start
    proof (induction es arbitrary: s rule: rev_induct)
      case Nil
      then show ?case by simp
    next
      case (snoc e es)
      then show ?case
        using idleEmpty_step[of "run es (runAgent s)" e]
        by (simp add: terminalEvents_def queueCompleteEvents_def)
    qed
    then show ?thesis using Nil by (simp add: idleEmpty_def)
  next
    case (Cons x xs)
    note st = runAgent_starts[OF idle Cons ids]
    have "drainInv (terminalEvents s + length (queue s)) (queueCompleteEvents s) (runAgent s)"
      using st by (simp add: drainInv_def)
    from drainInv_idle[OF drainInv_run[OF this env] fin] show ?thesis
      using Cons by simp
  qed
  show "\<not> processing (run (answers outcomes @ [TimerFire]) (runAgent s))"
    if len: "length outcomes = length (queue s)"
  proof (cases "queue s")
    case Nil
    then show ?thesis
      using idle len timerFire_idle(1)[of "runAgent s"]
      by (simp add: runAgent_empty answers_def)
  next
    case (Cons x xs)
    note st = runAgent_starts[OF idle Cons ids]
    show ?thesis
      using dispatching_drains[OF st(1), of outcomes] len st(2) by simp
  qed
qed

lemma manualState_fresh:
  "\<not> processing manualState" "activeProductId manualState = None" "inflight manualState = []"
  "queue manualState = []" "\<not> autoStart (settings manualState)"
  "terminalEvents manualState = 0" "queueCompleteEvents manualState = 0" "ticks manualState = 0"
  by (simp_all add: manualState_def initialState_def defaultSettings_def terminalEvents_def
      queueCompleteEvents_def countLogs_def)

lemma manualState_entropy:
  "inj (entropy manualState)" "\<forall>n. entropy manualState n \<noteq> []"
proof -
  have e: "entropy manualState = (\<lambda>n. ''id-'' @ replicate n (CHR ''x''))"
    by (simp add: manualState_def initialState_def)
  show "inj (entropy manualState)"
    unfolding e inj_def by (auto dest: arg_cong[where f=length])
  show "\<forall>n. entropy manualState n \<noteq> []"
    unfolding e by simp
qed

lemma sampleDraft_title: "title sampleDraft = ''Copper wire''"
  by (simp add: sampleDraft_def initialDraft_def)

text \<open>
  Claim C3, as stated, fails: the events at level success or error of a run are not \<open>N\<close>.
  With auto-start off, one draft is queued and the agent started; the answer arrives and
  the timer fires. The runner is idle again and the queue is empty, but the log holds two
  such events: the item's outcome and the success event \<open>Queue complete\<close> that
  \<open>processNextProduct\<close> logs when it finds the queue empty.
\<close>

theorem one_item_two_terminal_events:
  "length (queue (run (enqueues [sampleDraft]) manualState)) = 1
   \<and> \<not> processing (run (enqueues [sampleDraft] @ [Start, Complete 0 delivered remoteDown, TimerFire])
                      manualState)
   \<and> queue (run (enqueues [sampleDraft] @ [Start, Complete 0 delivered remoteDown, TimerFire])
              manualState) = []
   \<and> terminalEvents (run (enqueues [sampleDraft] @ [Start, Complete 0 delivered remoteDown, TimerFire])
                       manualState) = 2"
proof -
  let ?s = "run (enqueues [sampleDraft]) manualState"
  have titles: "\<forall>d\<in>set [sampleDraft]. title d \<noteq> []"
    by (simp add: sampleDraft_title)
  note enq = enqueues_idle[OF manualState_fresh(1,5) titles]
  have idle: "\<not> processing ?s" "activeProductId ?s = None" "inflight ?s = []"
    using enq manualState_fresh by simp_all
  have pids: "map pid (queue ?s) = [entropy manualState 0]"
    using enq manualState_fresh by simp
  have len: "length (queue ?s) = 1"
    using arg_cong[OF pids, of length] by simp
  have dist: "distinct (map pid (queue ?s))"
    unfolding pids by simp
  have nonempty: "\<forall>i\<in>set (queue ?s). pid i \<noteq> []"
  proof
    fix i assume "i \<in> set (queue ?s)"
    then have "pid i \<in> set (map pid (queue ?s))" by simp
    then show "pid i \<noteq> []" unfolding pids using manualState_entropy(2) by auto
  qed
  have trace: "[Complete 0 delivered remoteDown, TimerFire] = answers [(delivered, remoteDown)] @ [TimerFire]"
    by (simp add: answers_def)
  have fin: "\<not> processing (run [Complete 0 delivered remoteDown, TimerFire] (runAgent ?s))"
    unfolding trace using drain_after_start(2)[OF idle dist nonempty, of "[(delivered, remoteDown)]"] len
    by simp
  have env: "\<forall>e\<in>set [Complete 0 delivered remoteDown, TimerFire]. environmentEvent e"
    by simp
  have "queue (run [Complete 0 delivered remoteDown, TimerFire] (runAgent ?s)) = []
      \<and> terminalEvents (run [Complete 0 delivered remoteDown, TimerFire] (runAgent ?s))
          = terminalEvents ?s + length (queue ?s) + (if queue ?s = [] then 0 else 1)"
    using drain_after_start(1)[OF idle dist nonempty env fin] by simp
  moreover have "queue ?s \<noteq> []" using len by auto
  moreover have "terminalEvents ?s = 0" using enq manualState_fresh by simp
  moreover have shape:
    "run (enqueues [sampleDraft] @ [Start, Complete 0 delivered remoteDown, TimerFire]) manualState
       = run [Complete 0 delivered remoteDown, TimerFire] (runAgent ?s)"
    by simp
  ultimately show ?thesis
    unfolding shape using len fin by simp
qed

text \<open>
  Claim C3, amended. With auto-start off, for every \<open>N\<close> and every sequence of \<open>N\<close>
  successful enqueues on an idle console with an empty queue, followed by start and then
  only answers and timers: when the runner is idle again the queue is empty and the run
  has logged exactly \<open>N\<close> outcome events, one per item, and for \<open>N > 0\<close> one further
  success event, \<open>Queue complete\<close>; so \<open>N + 1\<close> events at level success or error. The
  runner does become idle: after the \<open>N\<close> answers, whatever they are, and one timer it is.
  The ids \<open>makeId\<close> returns are taken to be distinct and non-empty.
\<close>

theorem drain_after_enqueues:
  assumes fresh: "\<not> processing s0" "activeProductId s0 = None" "inflight s0 = []" "queue s0 = []"
    and manual: "\<not> autoStart (settings s0)"
    and ids: "inj (entropy s0)" "\<forall>n. entropy s0 n \<noteq> []"
    and titles: "\<forall>d\<in>set ds. title d \<noteq> []"
  shows "length (queue (run (enqueues ds) s0)) = length ds
     \<and> (\<forall>es. (\<forall>e\<in>set es. environmentEvent e)
             \<and> \<not> processing (run es (run (enqueues ds @ [Start]) s0))
           \<longrightarrow> queue (run es (run (enqueues ds @ [Start]) s0)) = []
             \<and> terminalEvents (run es (run (enqueues ds @ [Start]) s0))
                 = terminalEvents s0 + length ds + (if ds = [] then 0 else 1)
             \<and> queueCompleteEvents (run es (run (enqueues ds @ [Start]) s0))
                 = queueCompleteEvents s0 + (if ds = [] then 0 else 1))
     \<and> (\<forall>outcomes. length outcomes = length ds
           \<longrightarrow> \<not> processing (run (answers outcomes @ [TimerFire])
                                (run (enqueues ds @ [Start]) s0)))"
proof -
  let ?s = "run (enqueues ds) s0"
  note enq = enqueues_idle[OF fresh(1) manual titles]
  have idle: "\<not> processing ?s" "activeProductId ?s = None" "inflight ?s = []"
    using enq fresh by simp_all
  have pids: "map pid (queue ?s) = map (\<lambda>k. entropy s0 (ticks s0 + 4 * k)) [0..<length ds]"
    using enq fresh(4) by simp
  have len: "length (queue ?s) = length ds"
    using arg_cong[OF pids, of length] by simp
  have dist: "distinct (map pid (queue ?s))"
    unfolding pids by (rule distinct_ids[OF ids(1)])
  have nonempty: "\<forall>i\<in>set (queue ?s). pid i \<noteq> []"
  proof
    fix i assume "i \<in> set (queue ?s)"
    then have "pid i \<in> set (map pid (queue ?s))" by simp
    then show "pid i \<noteq> []" unfolding pids using ids(2) by (auto dest: sym)
  qed
  have counts: "terminalEvents ?s = terminalEvents s0" "queueCompleteEvents ?s = queueCompleteEvents s0"
    using enq by simp_all
  have empty: "queue ?s = [] \<longleftrightarrow> ds = []"
    using len by (metis length_0_conv)
  note drain = drain_after_start[OF idle dist nonempty]
  show ?thesis
    using drain len counts empty by simp
qed


theorem drain_after_enqueues_witness:
  "length (queue (run (enqueues [sampleDraft, boltDraft]) manualState)) = 2
   \<and> \<not> processing
        (run (enqueues [sampleDraft, boltDraft]
              @ [Start, Complete 0 delivered remoteDown,
                 Complete 0 (failed (ErrorObject ''offline'')) remoteDown, TimerFire])
           manualState)
   \<and> queue
        (run (enqueues [sampleDraft, boltDraft]
              @ [Start, Complete 0 delivered remoteDown,
                 Complete 0 (failed (ErrorObject ''offline'')) remoteDown, TimerFire])
           manualState) = []
   \<and> terminalEvents
        (run (enqueues [sampleDraft, boltDraft]
              @ [Start, Complete 0 delivered remoteDown,
                 Complete 0 (failed (ErrorObject ''offline'')) remoteDown, TimerFire])
           manualState) = 3
   \<and> queueCompleteEvents
        (run (enqueues [sampleDraft, boltDraft]
              @ [Start, Complete 0 delivered remoteDown,
                 Complete 0 (failed (ErrorObject ''offline'')) remoteDown, TimerFire])
           manualState) = 1"
proof -
  let ?ds = "[sampleDraft, boltDraft]"
  let ?es = "[Complete 0 delivered remoteDown,
              Complete 0 (failed (ErrorObject ''offline'')) remoteDown, TimerFire]"
  let ?s = "run (enqueues ?ds @ [Start]) manualState"
  have titles: "\<forall>d\<in>set ?ds. title d \<noteq> []"
    by (simp add: sampleDraft_title boltDraft_def)
  note t = drain_after_enqueues[OF manualState_fresh(1-5) manualState_entropy titles]
  have trace: "?es = answers [(delivered, remoteDown), (failed (ErrorObject ''offline''), remoteDown)]
                     @ [TimerFire]"
    by (simp add: answers_def)
  have len: "length (queue (run (enqueues ?ds) manualState)) = 2"
    using t by simp
  have fin: "\<not> processing (run ?es ?s)"
    unfolding trace using t by simp
  have env: "\<forall>e\<in>set ?es. environmentEvent e"
    by simp
  have "queue (run ?es ?s) = [] \<and> terminalEvents (run ?es ?s) = 3
      \<and> queueCompleteEvents (run ?es ?s) = 1"
    using t env fin manualState_fresh(6,7) by (simp del: run_Cons run_append)
  moreover have shape:
    "run (enqueues ?ds @ [Start, Complete 0 delivered remoteDown,
                          Complete 0 (failed (ErrorObject ''offline'')) remoteDown, TimerFire])
       manualState = run ?es ?s"
    by simp
  ultimately show ?thesis
    unfolding shape using len fin by simp
qed

section \<open>Properties of the CSV import and of the form\<close>

lemma addRows_fields:
  "settings (foldl (\<lambda>acc row. addToQueue r (f row) acc) s rows) = settings s
   \<and> draft (foldl (\<lambda>acc row. addToQueue r (f row) acc) s rows) = draft s
   \<and> activeProductId (foldl (\<lambda>acc row. addToQueue r (f row) acc) s rows) = activeProductId s
   \<and> inflight (foldl (\<lambda>acc row. addToQueue r (f row) acc) s rows) = inflight s
   \<and> timers (foldl (\<lambda>acc row. addToQueue r (f row) acc) s rows) = timers s
   \<and> processing (foldl (\<lambda>acc row. addToQueue r (f row) acc) s rows)
       = (processing s \<or> (rows \<noteq> [] \<and> autoStart (settings s) \<and> \<not> processingRef r))
   \<and> (\<exists>items. queue (foldl (\<lambda>acc row. addToQueue r (f row) acc) s rows) = queue s @ items
                \<and> map payload items = map f rows)
   \<and> countLogs P (foldl (\<lambda>acc row. addToQueue r (f row) acc) s rows)
       = countLogs P s
         + length (filter (\<lambda>row. P info (''Product queued: '' @ orElse (title (f row)) ''Untitled''))
                     rows)"
proof (induction rows arbitrary: s)
  case Nil
  then show ?case by simp
next
  case (Cons row rows)
  let ?s1 = "addToQueue r (f row) s"
  obtain items where items:
    "queue (foldl (\<lambda>acc row. addToQueue r (f row) acc) ?s1 rows) = queue ?s1 @ items"
    "map payload items = map f rows"
    using Cons.IH[of ?s1] by blast
  have q: "queue (foldl (\<lambda>acc row. addToQueue r (f row) acc) s (row # rows))
      = queue s @ (\<lparr>pid = entropy s (ticks s), createdAt = clock s (Suc (ticks s)),
                     payload = f row\<rparr> # items)"
    using items(1) by simp
  have "\<exists>items. queue (foldl (\<lambda>acc row. addToQueue r (f row) acc) s (row # rows)) = queue s @ items
                \<and> map payload items = map f (row # rows)"
    using q items(2) by (intro exI[of _ "\<lparr>pid = entropy s (ticks s),
        createdAt = clock s (Suc (ticks s)), payload = f row\<rparr> # items"]) simp
  then show ?case
    using Cons.IH[of ?s1] by auto
qed

lemma parseCsvFile_empty:
  "nonBlankLines txt = [] \<Longrightarrow>
   parseCsvFile txt s = appendLog error ''Empty CSV'' (Some ''No header row detected.'') s"
  by (simp add: parseCsvFile_def)

lemma parseCsvFile_mismatch:
  "nonBlankLines txt = headerLine # rows \<Longrightarrow> missingColumns (csvHeaders headerLine) \<noteq> [] \<Longrightarrow>
   parseCsvFile txt s
     = appendLog error ''CSV headers mismatch''
         (Some (''Missing columns: '' @ join '', '' (missingColumns (csvHeaders headerLine)))) s"
  by (simp add: parseCsvFile_def Let_def)

lemma parseCsvFile_rows:
  "nonBlankLines txt = headerLine # rows \<Longrightarrow> missingColumns (csvHeaders headerLine) = [] \<Longrightarrow>
   parseCsvFile txt s
     = commit (rows \<noteq> []) s
         (appendLog success ''CSV imported''
            (Some (showNat (length rows) @ '' product rows processed.''))
            (foldl (\<lambda>acc rowLine. addToQueue (refsOf s) (rowProduct (csvHeaders headerLine) rowLine) acc)
               s rows))"
  by (simp add: parseCsvFile_def Let_def)

lemma parseCsvFile_queue:
  assumes "nonBlankLines txt = headerLine # rows" "missingColumns (csvHeaders headerLine) = []"
  shows "\<exists>items. queue (parseCsvFile txt s) = queue s @ items
                 \<and> map payload items = map (rowProduct (csvHeaders headerLine)) rows"
  using addRows_fields[of "refsOf s" "rowProduct (csvHeaders headerLine)" s rows]
  by (simp add: parseCsvFile_rows[OF assms])

lemma parseCsvFile_idle:
  assumes "\<not> processing s" "\<not> autoStart (settings s)"
  shows "\<not> processing (parseCsvFile txt s)"
    and "settings (parseCsvFile txt s) = settings s"
    and "dispatchesBegun (parseCsvFile txt s) = dispatchesBegun s"
proof -
  have "\<not> processing (parseCsvFile txt s) \<and> settings (parseCsvFile txt s) = settings s
      \<and> dispatchesBegun (parseCsvFile txt s) = dispatchesBegun s"
  proof (cases "nonBlankLines txt")
    case Nil
    then show ?thesis
      using assms by (simp add: parseCsvFile_empty dispatchesBegun_def)
  next
    case (Cons headerLine rows)
    show ?thesis
    proof (cases "missingColumns (csvHeaders headerLine) = []")
      case False
      then show ?thesis
        using assms by (simp add: parseCsvFile_mismatch[OF Cons] dispatchesBegun_def)
    next
      case True
      note f = addRows_fields[of "refsOf s" "rowProduct (csvHeaders headerLine)" s rows
          "\<lambda>lv hl. lv = info \<and> take 12 hl = ''Processing: ''"]
      show ?thesis
        using assms f by (simp add: parseCsvFile_rows[OF Cons True] dispatchesBegun_def)
    qed
  qed
  then show "\<not> processing (parseCsvFile txt s)" "settings (parseCsvFile txt s) = settings s"
    "dispatchesBegun (parseCsvFile txt s) = dispatchesBegun s"
    by simp_all
qed

lemma indexOf_nth:
  "i < length hs \<Longrightarrow> hs ! i \<notin> set (take i hs) \<Longrightarrow> indexOf hs (hs ! i) = Some i"
proof (induction hs arbitrary: i)
  case Nil
  then show ?case by simp
next
  case (Cons h hs)
  then show ?case by (cases i) auto
qed

lemma getValue_by_name:
  "i < length hs \<Longrightarrow> hs ! i \<notin> set (take i hs) \<Longrightarrow>
   getValue hs cells (hs ! i) = (if i < length cells then cells ! i else [])"
  by (simp add: getValue_def indexOf_nth)

lemma set_missingColumns: "set (missingColumns hs) = set expectedColumns - set hs"
  by (auto simp: missingColumns_def)

lemma length_nonBlankLines:
  "length (nonBlankLines txt) = length (filter (\<lambda>l. trim l \<noteq> []) (splitLines txt))"
  by (simp add: nonBlankLines_def filter_map comp_def)


lemma csvHeaders_sampleHeader: "csvHeaders sampleHeader = expectedColumns"
  by code_simp

lemma csvHeaders_shuffledHeader:
  "csvHeaders shuffledHeader = expectedColumns[0 := ''category'', 1 := ''title'']"
  by code_simp

lemma missing_shortHeader: "missingColumns (csvHeaders shortHeader) = [''leadtime'']"
  by code_simp

lemma missing_shuffledHeader: "missingColumns (csvHeaders shuffledHeader) = []"
  unfolding csvHeaders_shuffledHeader by code_simp

lemma missing_sampleHeader: "missingColumns (csvHeaders sampleHeader) = []"
  unfolding csvHeaders_sampleHeader by code_simp

lemma lines_short:
  "nonBlankLines (shortHeader @ [CHR 0x0A] @ ''Wire,Tools'') = [shortHeader, ''Wire,Tools'']"
  by code_simp

lemma lines_shuffled:
  "nonBlankLines (shuffledHeader @ [CHR 0x0D, CHR 0x0A] @ ''  '' @ [CHR 0x0A] @ ''Tools,Wire''
                  @ [CHR 0x0A] @ '',Bolt,10'' @ [CHR 0x0A])
     = [shuffledHeader, ''Tools,Wire'', '',Bolt,10'']"
  by code_simp

lemma lines_untitled:
  "nonBlankLines (sampleHeader @ [CHR 0x0A] @ '',Tools,10'') = [sampleHeader, '',Tools,10'']"
  by code_simp

lemma row_untitled:
  "map title (map (rowProduct (csvHeaders sampleHeader)) ['',Tools,10'']) = [[]]"
  unfolding csvHeaders_sampleHeader by code_simp


lemma draftField_rowProduct:
  "c \<in> set expectedColumns \<Longrightarrow>
   draftField (rowProduct hs rowLine) c
     = orElse (getValue hs (map cleanCell (splitCsvLine rowLine)) c) (columnDefault c)"
  unfolding expectedColumns_def
  by (auto simp: draftField_def rowProduct_def columnDefault_def orElse_def Let_def)

lemma getValue_cellAt:
  "i < length hs \<Longrightarrow> hs ! i \<notin> set (take i hs) \<Longrightarrow>
   getValue hs (map cleanCell (splitCsvLine rowLine)) (hs ! i) = cellAt rowLine i"
  by (simp add: getValue_by_name cellAt_def)

lemma draftField_names:
  "draftField d ''title'' = title d"
  "draftField d ''category'' = category d"
  "draftField d ''price'' = price d"
  "draftField d ''currency'' = currency d"
  "draftField d ''leadtime'' = leadTime d"
  by (simp_all add: draftField_def)

lemma cellAt_samples:
  "cellAt ''Tools,Wire'' 0 = ''Tools''"
  "cellAt ''Tools,Wire'' 1 = ''Wire''"
  "cellAt ''Tools,Wire'' 2 = []"
  "cellAt ''Tools,Wire'' 3 = []"
  "cellAt ''Tools,Wire'' 13 = []"
  "cellAt '',Bolt,10'' 0 = []"
  "cellAt '',Bolt,10'' 1 = ''Bolt''"
  "cellAt '',Bolt,10'' 2 = ''10''"
  "cellAt '',Bolt,10'' 3 = []"
  "cellAt '',Bolt,10'' 13 = []"
  by code_simp+

lemma lines_defaults:
  "nonBlankLines (sampleHeader @ [CHR 0x0A] @ ''Wire,Tools,10'') = [sampleHeader, ''Wire,Tools,10'']"
  by code_simp

lemma row_defaults:
  "map (\<lambda>d. (stock d, currency d, unit d))
     (map (rowProduct (csvHeaders sampleHeader)) [''Wire,Tools,10'']) = [([], ''INR'', ''Unit'')]"
  unfolding csvHeaders_sampleHeader by code_simp

text \<open>
  Claim C7, as stated, fails for two columns: a row with fewer cells than headers does not
  yield the empty string for a missing \<open>currency\<close> or \<open>unit\<close>. The row
  \<open>Wire,Tools,10\<close> under the documented header has three cells for fourteen columns; the
  item it queues has an empty \<open>stock\<close>, but its currency is \<open>INR\<close> and its unit is
  \<open>Unit\<close>, the defaults that lines 432-433 put in place of an empty value.
\<close>

theorem csv_short_row_takes_defaults:
  "length (csvHeaders sampleHeader) = 14 \<and> length (splitCsvLine ''Wire,Tools,10'') = 3
   \<and> map (\<lambda>i. (stock (payload i), currency (payload i), unit (payload i)))
       (queue (parseCsvFile (sampleHeader @ [CHR 0x0A] @ ''Wire,Tools,10'') manualState))
     = [([], ''INR'', ''Unit'')]"
proof -
  obtain items where items:
    "queue (parseCsvFile (sampleHeader @ [CHR 0x0A] @ ''Wire,Tools,10'') manualState)
       = queue manualState @ items"
    "map payload items = map (rowProduct (csvHeaders sampleHeader)) [''Wire,Tools,10'']"
    using parseCsvFile_queue[OF lines_defaults missing_sampleHeader, of manualState] by blast
  have "map (\<lambda>i. (stock (payload i), currency (payload i), unit (payload i))) items
      = map (\<lambda>d. (stock d, currency d, unit d)) (map payload items)"
    by simp
  then have "map (\<lambda>i. (stock (payload i), currency (payload i), unit (payload i)))
       (queue (parseCsvFile (sampleHeader @ [CHR 0x0A] @ ''Wire,Tools,10'') manualState))
     = [([], ''INR'', ''Unit'')]"
    unfolding items(1) items(2) row_defaults by (simp add: manualState_fresh)
  moreover have "length (csvHeaders sampleHeader) = 14"
    unfolding csvHeaders_sampleHeader by (simp add: expectedColumns_def)
  moreover have "length (splitCsvLine ''Wire,Tools,10'') = 3"
    by (simp add: splitCsvLine_def)
  ultimately show ?thesis by simp
qed

text \<open>
  Claim C7, amended. For a file with a header row: the header names are the header's
  cells, cleaned, lower-cased and with all white space removed. If they lack any of the 14
  required names, the import only logs one error event whose details list every missing
  name, in the order of \<open>expectedColumns\<close>, and the queue is unchanged. If all 14 are
  there, every non-blank line after the header, in order, adds one item, so lines that are
  blank after trimming add nothing; and every field of the item's draft is read by name: it
  is the row's cell at the position of the first header cell with the column's name,
  whatever that position, and for a row with no cell there the empty string, except that
  an empty or missing \<open>currency\<close> or \<open>unit\<close> becomes \<open>INR\<close> or \<open>Unit\<close>.
\<close>

theorem csv_import_schema:
  assumes "nonBlankLines txt = headerLine # rows"
  shows "length expectedColumns = 14 \<and> distinct expectedColumns
     \<and> csvHeaders headerLine
         = map (\<lambda>column. stripWhiteSpace (toLowerCase (cleanCell column))) (splitCsvLine headerLine)
     \<and> set (missingColumns (csvHeaders headerLine))
         = set expectedColumns - set (csvHeaders headerLine)
     \<and> (missingColumns (csvHeaders headerLine) \<noteq> [] \<longrightarrow>
          parseCsvFile txt s
            = appendLog error ''CSV headers mismatch''
                (Some (''Missing columns: '' @ join '', '' (missingColumns (csvHeaders headerLine))))
                s
          \<and> queue (parseCsvFile txt s) = queue s)
     \<and> (missingColumns (csvHeaders headerLine) = [] \<longrightarrow>
          set expectedColumns \<subseteq> set (csvHeaders headerLine)
          \<and> (\<exists>items. queue (parseCsvFile txt s) = queue s @ items
                \<and> length items = length rows
                \<and> (\<forall>j<length rows. \<forall>i<length (csvHeaders headerLine).
                      csvHeaders headerLine ! i \<in> set expectedColumns
                      \<and> csvHeaders headerLine ! i \<notin> set (take i (csvHeaders headerLine))
                      \<longrightarrow> draftField (payload (items ! j)) (csvHeaders headerLine ! i)
                            = orElse (cellAt (rows ! j) i)
                                (columnDefault (csvHeaders headerLine ! i))))
          \<and> length (queue (parseCsvFile txt s))
              = length (queue s) + (length (filter (\<lambda>l. trim l \<noteq> []) (splitLines txt)) - 1))"
proof -
  let ?hs = "csvHeaders headerLine"
  have names: "length expectedColumns = 14 \<and> distinct expectedColumns"
    by (simp add: expectedColumns_def)
  have normal: "?hs = map (\<lambda>column. stripWhiteSpace (toLowerCase (cleanCell column)))
                        (splitCsvLine headerLine)"
    by (simp add: csvHeaders_def normalizeHeader_def)
  have refused: "parseCsvFile txt s
            = appendLog error ''CSV headers mismatch''
                (Some (''Missing columns: '' @ join '', '' (missingColumns ?hs))) s
          \<and> queue (parseCsvFile txt s) = queue s"
    if "missingColumns ?hs \<noteq> []"
    using parseCsvFile_mismatch[OF assms that] by simp
  have accepted: "set expectedColumns \<subseteq> set ?hs
          \<and> (\<exists>items. queue (parseCsvFile txt s) = queue s @ items
                \<and> length items = length rows
                \<and> (\<forall>j<length rows. \<forall>i<length ?hs.
                      ?hs ! i \<in> set expectedColumns \<and> ?hs ! i \<notin> set (take i ?hs)
                      \<longrightarrow> draftField (payload (items ! j)) (?hs ! i)
                            = orElse (cellAt (rows ! j) i) (columnDefault (?hs ! i))))
          \<and> length (queue (parseCsvFile txt s))
              = length (queue s) + (length (filter (\<lambda>l. trim l \<noteq> []) (splitLines txt)) - 1)"
    if ok: "missingColumns ?hs = []"
  proof -
    obtain items where items: "queue (parseCsvFile txt s) = queue s @ items"
      "map payload items = map (rowProduct ?hs) rows"
      using parseCsvFile_queue[OF assms ok] by blast
    have len: "length items = length rows"
      using arg_cong[OF items(2), of length] by simp
    have rows: "length rows = length (filter (\<lambda>l. trim l \<noteq> []) (splitLines txt)) - 1"
      using length_nonBlankLines[of "txt"] assms by simp
    have item: "payload (items ! j) = rowProduct ?hs (rows ! j)" if "j < length rows" for j
      using arg_cong[OF items(2), of "\<lambda>xs. xs ! j"] that len by simp
    have cells: "draftField (payload (items ! j)) (?hs ! i)
                   = orElse (cellAt (rows ! j) i) (columnDefault (?hs ! i))"
      if "j < length rows" "i < length ?hs" "?hs ! i \<in> set expectedColumns"
        "?hs ! i \<notin> set (take i ?hs)" for i j
      unfolding item[OF that(1)] draftField_rowProduct[OF that(3)]
        getValue_cellAt[OF that(2,4)] ..
    have all: "set expectedColumns \<subseteq> set ?hs"
      using set_missingColumns[of ?hs] ok by auto
    show ?thesis
      using all items(1) len cells rows by auto
  qed
  show ?thesis
    using names normal set_missingColumns[of ?hs] refused accepted by blast
qed

theorem csv_import_schema_witness:
  "parseCsvFile (shortHeader @ [CHR 0x0A] @ ''Wire,Tools'') manualState
     = appendLog error ''CSV headers mismatch'' (Some ''Missing columns: leadtime'') manualState
   \<and> queue (parseCsvFile (shortHeader @ [CHR 0x0A] @ ''Wire,Tools'') manualState) = []
   \<and> map (\<lambda>i. (title (payload i), category (payload i), price (payload i), currency (payload i),
                 leadTime (payload i)))
       (queue (parseCsvFile (shuffledHeader @ [CHR 0x0D, CHR 0x0A] @ ''  '' @ [CHR 0x0A]
                             @ ''Tools,Wire'' @ [CHR 0x0A] @ '',Bolt,10'' @ [CHR 0x0A])
                 manualState))
     = [(''Wire'', ''Tools'', [], ''INR'', []), (''Bolt'', [], ''10'', ''INR'', [])]"
proof -
  let ?csv = "shuffledHeader @ [CHR 0x0D, CHR 0x0A] @ ''  '' @ [CHR 0x0A]
              @ ''Tools,Wire'' @ [CHR 0x0A] @ '',Bolt,10'' @ [CHR 0x0A]"
  let ?rows = "[''Tools,Wire'', '',Bolt,10'']"
  let ?hs = "[''category'', ''title'', ''price'', ''currency'', ''unit'', ''stock'',
              ''minorderqty'', ''keywords'', ''imageurls'', ''shortdescription'', ''description'',
              ''features'', ''packaging'', ''leadtime'']"
  have empty: "queue manualState = []"
    by (simp add: manualState_fresh)
  have refused: "parseCsvFile (shortHeader @ [CHR 0x0A] @ ''Wire,Tools'') manualState
     = appendLog error ''CSV headers mismatch'' (Some ''Missing columns: leadtime'') manualState
     \<and> queue (parseCsvFile (shortHeader @ [CHR 0x0A] @ ''Wire,Tools'') manualState) = []"
    using csv_import_schema[OF lines_short, of manualState] missing_shortHeader empty
    by simp
  have hs: "csvHeaders shuffledHeader = ?hs"
    by (simp add: csvHeaders_shuffledHeader expectedColumns_def)
  obtain items where items: "queue (parseCsvFile ?csv manualState) = queue manualState @ items"
    "length items = length ?rows"
    and cells: "\<forall>j<length ?rows. \<forall>i<length ?hs.
       ?hs ! i \<in> set expectedColumns \<and> ?hs ! i \<notin> set (take i ?hs)
       \<longrightarrow> draftField (payload (items ! j)) (?hs ! i)
             = orElse (cellAt (?rows ! j) i) (columnDefault (?hs ! i))"
    using csv_import_schema[OF lines_shuffled, of manualState] missing_shuffledHeader
    unfolding hs by blast
  have pick: "draftField (payload (items ! j)) c = orElse (cellAt (?rows ! j) i) (columnDefault c)"
    if "j < 2" "i < 14" "?hs ! i = c" "c \<in> set expectedColumns" "c \<notin> set (take i ?hs)"
    for i j c
    using cells that by auto
  have first: "title (payload (items ! 0)) = ''Wire''" "category (payload (items ! 0)) = ''Tools''"
    "price (payload (items ! 0)) = []" "currency (payload (items ! 0)) = ''INR''"
    "leadTime (payload (items ! 0)) = []"
    using pick[of 0 1 "''title''"] pick[of 0 0 "''category''"] pick[of 0 2 "''price''"]
      pick[of 0 3 "''currency''"] pick[of 0 13 "''leadtime''"]
    by (simp_all add: expectedColumns_def draftField_names cellAt_samples
        cellAt_samples(2,7)[unfolded One_nat_def] orElse_def columnDefault_def)
  have second: "title (payload (items ! 1)) = ''Bolt''" "category (payload (items ! 1)) = []"
    "price (payload (items ! 1)) = ''10''" "currency (payload (items ! 1)) = ''INR''"
    "leadTime (payload (items ! 1)) = []"
    using pick[of 1 1 "''title''"] pick[of 1 0 "''category''"] pick[of 1 2 "''price''"]
      pick[of 1 3 "''currency''"] pick[of 1 13 "''leadtime''"]
    by (simp_all add: expectedColumns_def draftField_names cellAt_samples
        cellAt_samples(2,7)[unfolded One_nat_def] orElse_def columnDefault_def)
  obtain a b where ab: "items = [a, b]"
    using items(2) by (cases items; cases "tl items") auto
  have accepted: "map (\<lambda>i. (title (payload i), category (payload i), price (payload i),
                                currency (payload i), leadTime (payload i)))
       (queue (parseCsvFile ?csv manualState))
     = [(''Wire'', ''Tools'', [], ''INR'', []), (''Bolt'', [], ''10'', ''INR'', [])]"
    unfolding items(1) empty using first second unfolding ab by simp
  show ?thesis
    using refused accepted by blast
qed

lemma handleAddDraftToQueue_untitled:
  "title (draft s) = [] \<Longrightarrow>
   handleAddDraftToQueue s
     = appendLog error ''Missing product name'' (Some ''Add a product title before queuing.'') s"
  by (simp add: handleAddDraftToQueue_def)

lemma handleAddDraftToQueue_titled:
  assumes "title (draft s) \<noteq> []"
  shows "queue (handleAddDraftToQueue s)
           = queue s @ [\<lparr>pid = entropy s (ticks s), createdAt = clock s (Suc (ticks s)),
                          payload = draft s\<rparr>]"
    and "draft (handleAddDraftToQueue s) = initialDraft"
  using assms by (simp_all add: handleAddDraftToQueue_def resetDraft_def)

text \<open>
  Claim C1, as stated, fails on the CSV path: \<open>parseCsvFile\<close> hands every row to
  \<open>addToQueue\<close>, which tests no title. The import of the documented header and the one
  row \<open>,Tools,10\<close> queues an item whose title is empty.
\<close>

theorem csv_import_admits_untitled_item:
  "map (\<lambda>i. title (payload i))
     (queue (parseCsvFile (sampleHeader @ [CHR 0x0A] @ '',Tools,10'') manualState)) = [[]]"
proof -
  obtain items where items:
    "queue (parseCsvFile (sampleHeader @ [CHR 0x0A] @ '',Tools,10'') manualState)
       = queue manualState @ items"
    "map payload items = map (rowProduct (csvHeaders sampleHeader)) ['',Tools,10'']"
    using parseCsvFile_queue[OF lines_untitled missing_sampleHeader, of manualState] by blast
  have "map (\<lambda>i. title (payload i)) items = map title (map payload items)"
    by simp
  then show ?thesis
    unfolding items(1) items(2) row_untitled by (simp add: manualState_fresh)
qed

text \<open>
  Claim C1, amended. On the form's path every admitted item has a non-empty title:
  \<open>handleAddDraftToQueue\<close> appends an item, with the draft as its payload, only if the
  draft's title is non-empty, and it keeps all queued titles non-empty; with an empty title
  it only logs one error event, so the queue is unchanged and the draft is retained.
  \<open>addToQueue\<close> itself, which the CSV import calls for each row, appends the item
  whatever its title.
\<close>

theorem form_enqueue_requires_title:
  "(title (draft s) = [] \<longrightarrow>
      handleAddDraftToQueue s
        = appendLog error ''Missing product name'' (Some ''Add a product title before queuing.'') s
      \<and> queue (handleAddDraftToQueue s) = queue s
      \<and> draft (handleAddDraftToQueue s) = draft s
      \<and> errorEvents (handleAddDraftToQueue s) = Suc (errorEvents s))
   \<and> (title (draft s) \<noteq> [] \<longrightarrow>
        queue (handleAddDraftToQueue s)
          = queue s @ [\<lparr>pid = entropy s (ticks s), createdAt = clock s (Suc (ticks s)),
                         payload = draft s\<rparr>]
        \<and> draft (handleAddDraftToQueue s) = initialDraft)
   \<and> ((\<forall>i\<in>set (queue s). title (payload i) \<noteq> [])
        \<longrightarrow> (\<forall>i\<in>set (queue (handleAddDraftToQueue s)). title (payload i) \<noteq> []))
   \<and> queue (addToQueue r p s)
       = queue s @ [\<lparr>pid = entropy s (ticks s), createdAt = clock s (Suc (ticks s)), payload = p\<rparr>]"
proof -
  have untitled: "handleAddDraftToQueue s
        = appendLog error ''Missing product name'' (Some ''Add a product title before queuing.'') s
      \<and> queue (handleAddDraftToQueue s) = queue s
      \<and> draft (handleAddDraftToQueue s) = draft s
      \<and> errorEvents (handleAddDraftToQueue s) = Suc (errorEvents s)"
    if "title (draft s) = []"
    using handleAddDraftToQueue_untitled[OF that] by (simp add: errorEvents_def)
  have kept: "\<forall>i\<in>set (queue (handleAddDraftToQueue s)). title (payload i) \<noteq> []"
    if "\<forall>i\<in>set (queue s). title (payload i) \<noteq> []"
  proof (cases "title (draft s) = []")
    case True
    then show ?thesis using untitled that by simp
  next
    case False
    then show ?thesis using handleAddDraftToQueue_titled(1)[OF False] that by simp
  qed
  have direct: "queue (addToQueue r p s)
       = queue s @ [\<lparr>pid = entropy s (ticks s), createdAt = clock s (Suc (ticks s)), payload = p\<rparr>]"
    by simp
  show ?thesis
    using untitled handleAddDraftToQueue_titled[of s] kept direct by blast
qed

theorem form_enqueue_requires_title_witness:
  "queue (handleAddDraftToQueue manualState) = []
   \<and> draft (handleAddDraftToQueue manualState) = initialDraft
   \<and> errorEvents (handleAddDraftToQueue manualState) = 1
   \<and> map (\<lambda>i. title (payload i)) (queue (handleAddDraftToQueue (manualState\<lparr>draft := boltDraft\<rparr>)))
       = [''Bolt'']
   \<and> draft (handleAddDraftToQueue (manualState\<lparr>draft := boltDraft\<rparr>)) = initialDraft"
proof -
  have m: "title (draft manualState) = []" "draft manualState = initialDraft"
    "queue manualState = []" "errorEvents manualState = 0"
    by (simp_all add: manualState_def initialState_def initialDraft_def errorEvents_def countLogs_def)
  have b: "title (draft (manualState\<lparr>draft := boltDraft\<rparr>)) \<noteq> []"
    "queue (manualState\<lparr>draft := boltDraft\<rparr>) = []"
    "\<forall>i\<in>set (queue (manualState\<lparr>draft := boltDraft\<rparr>)). title (payload i) \<noteq> []"
    by (simp_all add: boltDraft_def m)
  have "queue (handleAddDraftToQueue manualState) = queue manualState
     \<and> draft (handleAddDraftToQueue manualState) = draft manualState
     \<and> errorEvents (handleAddDraftToQueue manualState) = Suc (errorEvents manualState)"
    using form_enqueue_requires_title[of manualState "refsOf manualState" boltDraft] m(1) by blast
  then have first: "queue (handleAddDraftToQueue manualState) = []
     \<and> draft (handleAddDraftToQueue manualState) = initialDraft
     \<and> errorEvents (handleAddDraftToQueue manualState) = 1"
    unfolding m by simp
  let ?s = "manualState\<lparr>draft := boltDraft\<rparr>"
  have "queue (handleAddDraftToQueue ?s)
          = queue ?s @ [\<lparr>pid = entropy ?s (ticks ?s), createdAt = clock ?s (Suc (ticks ?s)),
                         payload = draft ?s\<rparr>]
        \<and> draft (handleAddDraftToQueue ?s) = initialDraft"
    using form_enqueue_requires_title[of ?s "refsOf manualState" boltDraft] b(1) by blast
  then have second: "map (\<lambda>i. title (payload i)) (queue (handleAddDraftToQueue ?s)) = [''Bolt'']
     \<and> draft (handleAddDraftToQueue ?s) = initialDraft"
    by (simp add: boltDraft_def m)
  show ?thesis
    using first second by blast
qed

section \<open>Properties of the queue runner: failure, stop\<close>

lemma not_Processing_paused [simp]: "take 12 ''Agent paused'' \<noteq> ''Processing: ''"
  by simp

lemma handleAddDraftToQueue_settings [simp]:
  "settings (handleAddDraftToQueue s) = settings s"
  by (simp add: handleAddDraftToQueue_def resetDraft_def)

lemma runAgent_settings [simp]: "settings (runAgent s) = settings s"
  by (simp add: runAgent_def Let_def)

lemma timerFire_settings [simp]: "settings (timerFire s) = settings s"
  by (simp add: timerFire_def Let_def)

lemma parseCsvFile_settings [simp]: "settings (parseCsvFile csv s) = settings s"
proof (cases "nonBlankLines csv")
  case Nil
  then show ?thesis by (simp add: parseCsvFile_empty)
next
  case (Cons headerLine rows)
  show ?thesis
  proof (cases "missingColumns (csvHeaders headerLine) = []")
    case True
    then show ?thesis
      using addRows_fields[of "refsOf s" "rowProduct (csvHeaders headerLine)" s rows]
      by (simp add: parseCsvFile_rows[OF Cons True])
  next
    case False
    then show ?thesis by (simp add: parseCsvFile_mismatch[OF Cons False])
  qed
qed

lemma step_settings [simp]: "settings (step e s) = settings s"
  by (cases e) simp_all

lemma run_settings [simp]: "settings (run es s) = settings s"
  by (induction es arbitrary: s) simp_all

lemma idle_step:
  assumes idle: "\<not> processing s" and quiet: "\<not> mayRestart (autoStart (settings s)) e"
  shows "\<not> processing (step e s)"
    and "dispatchesBegun (step e s) = dispatchesBegun s"
proof -
  have "\<not> processing (step e s) \<and> dispatchesBegun (step e s) = dispatchesBegun s"
  proof (cases e)
    case (DraftChange key v)
    then show ?thesis using idle by (simp add: dispatchesBegun_def)
  next
    case Submit
    then show ?thesis
      using idle quiet handleAddDraftToQueue_idle[of s] by simp
  next
    case (ImportCsv csv)
    then show ?thesis
      using idle quiet parseCsvFile_idle[of s csv] by simp
  next
    case Start
    then show ?thesis using quiet by simp
  next
    case Stop
    then show ?thesis by (simp add: dispatchesBegun_def)
  next
    case (Complete k t w)
    show ?thesis
    proof (cases "k < length (inflight s)")
      case True
      then show ?thesis
        using completeDispatch_idle[OF idle True] Complete by simp
    next
      case False
      then show ?thesis using idle Complete by simp
    qed
  next
    case TimerFire
    then show ?thesis
      using timerFire_idle[OF idle] by (simp add: dispatchesBegun_def)
  qed
  then show "\<not> processing (step e s)" "dispatchesBegun (step e s) = dispatchesBegun s"
    by simp_all
qed

lemma idle_run:
  "\<not> processing s \<Longrightarrow> \<forall>e\<in>set es. \<not> mayRestart (autoStart (settings s)) e \<Longrightarrow>
   \<not> processing (run es s) \<and> dispatchesBegun (run es s) = dispatchesBegun s"
proof (induction es arbitrary: s)
  case Nil
  then show ?case by simp
next
  case (Cons e es)
  have "\<not> processing (step e s)" "dispatchesBegun (step e s) = dispatchesBegun s"
    using idle_step[of s e] Cons.prems by simp_all
  then show ?case
    using Cons.IH[of "step e s"] Cons.prems by simp
qed

lemma completeDispatch_logs_idle:
  assumes "\<not> processing s" "k < length (inflight s)"
  shows "\<exists>e. logs (completeDispatch k t w s) = logs s @ [e]
           \<and> (level e = success \<or> level e = error)
           \<and> headline e = (if level e = error then ''Failed: '' else ''Uploaded: '')
                 @ orElse (title (payload (fl_next (inflight s ! k)))) ''Untitled product''"
proof -
  let ?o = "dispatchOutcome t w (fl_settings (inflight s ! k)) (payload (fl_next (inflight s ! k)))"
  have eq: "completeDispatch k t w s = afterOutcome k t w s"
    using assms by (simp add: completeDispatch_eq)
  show ?thesis
    unfolding eq
    by (cases ?o) (simp_all add: afterOutcome_def logOutcome_def)
qed

lemma queue_step_environment:
  "environmentEvent e \<Longrightarrow> set (queue (step e s)) \<subseteq> set (queue s)"
proof (cases e)
  case (Complete k t w)
  then show ?thesis
    by (cases "k < length (inflight s)") (auto simp: completeDispatch_queue)
next
  case TimerFire
  then show ?thesis by (simp add: timerFire_def Let_def)
qed simp_all

lemma queue_run_environment:
  "\<forall>e\<in>set es. environmentEvent e \<Longrightarrow> set (queue (run es s)) \<subseteq> set (queue s)"
proof (induction es arbitrary: s)
  case Nil
  then show ?case by simp
next
  case (Cons e es)
  then show ?case
    using queue_step_environment[of e s] by fastforce
qed

lemma completeDispatch_failure:
  assumes k: "k < length (inflight s)"
    and failure: "dispatchOutcome t w (fl_settings (inflight s ! k))
                    (payload (fl_next (inflight s ! k))) = Inl message"
  shows "logs (afterOutcome k t w s)
           = logs s @ [\<lparr>lid = entropy s (ticks s), level = error,
                         headline = ''Failed: '' @ orElse (title (payload (fl_next (inflight s ! k))))
                                                      ''Untitled product'',
                         details = Some message, timestamp = clock s (Suc (ticks s))\<rparr>]"
    and "errorEvents (afterOutcome k t w s) = Suc (errorEvents s)"
  using failure by (simp_all add: afterOutcome_def logOutcome_def errorEvents_def)

text \<open>
  The failures of a dispatch: the browser's call throws, the route handler refuses the
  product (validation), the remote API cannot be reached, or it rejects the call. Each
  reaches the \<^verbatim>\<open>catch\<close> block with its message.
\<close>

lemma dispatchOutcome_failures:
  "dispatchOutcome (failed (ErrorObject m)) w st d = Inl m"
  "missingFields (normalizeProduct d) \<noteq> [] \<Longrightarrow>
     dispatchOutcome delivered w st d
       = Inl (''Missing required product fields: '' @ join '', '' (missingFields (normalizeProduct d)))"
  "missingFields (normalizeProduct d) = [] \<Longrightarrow> mode st = live \<Longrightarrow>
     trim (apiKey st) \<noteq> [] \<Longrightarrow> trim (sellerId st) \<noteq> [] \<Longrightarrow>
     \<forall>call. w call = Threw (ErrorObject m) \<Longrightarrow>
     dispatchOutcome delivered w st d = Inl m"
  "missingFields (normalizeProduct d) = [] \<Longrightarrow> mode st = live \<Longrightarrow>
     trim (apiKey st) \<noteq> [] \<Longrightarrow> trim (sellerId st) \<noteq> [] \<Longrightarrow>
     \<forall>call. w call = Responded resp \<Longrightarrow> r_jsonError resp = None \<Longrightarrow>
     \<not> (200 \<le> r_status resp \<and> r_status resp \<le> 299) \<Longrightarrow>
     dispatchOutcome delivered w st d = Inl ''IndiaMART API returned an error.''"
  by (simp_all add: dispatchOutcome_def POST_def requestBody_def Let_def normalizeSettings_def
      afterFetch_def thrownMessage_def)

lemma drainingTwo_inflight:
  "map (\<lambda>f. (title (payload (fl_next f)), mode (fl_settings f))) (inflight drainingTwo)
     = [(''Bolt'', simulate)]"
  unfolding drainingTwo_def by code_simp

lemma drainingTwo_outcome:
  "dispatchOutcome delivered remoteDown (fl_settings (inflight drainingTwo ! 0))
     (payload (fl_next (inflight drainingTwo ! 0)))
     = Inl ''Missing required product fields: description, shortDescription''"
  unfolding drainingTwo_def by code_simp

lemma drainingTwo_after:
  "map (\<lambda>i. title (payload i)) (queue (completeDispatch 0 delivered remoteDown drainingTwo))
     = [''Copper wire'']
   \<and> map (\<lambda>f. title (payload (fl_next f)))
        (inflight (completeDispatch 0 delivered remoteDown drainingTwo)) = [''Copper wire'']"
  unfolding drainingTwo_def by code_simp

lemma completeDispatch_continues:
  assumes k: "k < length (inflight s)"
  shows "processing (completeDispatch k t w s) = processing s"
    and "activeProductId (completeDispatch k t w s)
           = (if processing s \<and> queue (completeDispatch k t w s) \<noteq> []
              then Some (pid (hd (queue (completeDispatch k t w s)))) else None)"
    and "inflight (completeDispatch k t w s)
           = take k (inflight s) @ drop (Suc k) (inflight s)
             @ (if processing s \<and> queue (completeDispatch k t w s) \<noteq> []
                then [\<lparr>fl_next = hd (queue (completeDispatch k t w s)), fl_settings = settings s\<rparr>]
                else [])"
    and "terminalEvents (completeDispatch k t w s) = Suc (terminalEvents s)"
    and "logs (completeDispatch k t w s)
           = logs (afterOutcome k t w s)
             @ (if processing s \<and> queue (completeDispatch k t w s) \<noteq> []
                then [\<lparr>lid = entropy s (ticks s + 2), level = info,
                       headline = ''Processing: ''
                         @ orElse (title (payload (hd (queue (completeDispatch k t w s)))))
                             ''Untitled product'',
                       details = Some (''Attempting IndiaMART sync in ''
                                       @ (if mode (settings s) = simulate then ''simulation''
                                          else ''live'')
                                       @ '' mode.''),
                       timestamp = clock s (ticks s + 3)\<rparr>]
                else [])"
proof -
  let ?s2 = "afterOutcome k t w s"
  let ?s' = "completeDispatch k t w s"
  have q2: "queue ?s' = queue ?s2"
    using k by (simp add: completeDispatch_queue afterOutcome_queue)
  have tk: "ticks ?s2 = ticks s + 2"
    by (simp add: afterOutcome_def logOutcome_eq)
  have ck: "clock ?s2 = clock s"
    by (simp add: afterOutcome_def logOutcome_eq)
  have all: "processing ?s' = processing s
     \<and> activeProductId ?s'
         = (if processing s \<and> queue ?s' \<noteq> [] then Some (pid (hd (queue ?s'))) else None)
     \<and> inflight ?s'
         = take k (inflight s) @ drop (Suc k) (inflight s)
           @ (if processing s \<and> queue ?s' \<noteq> []
              then [\<lparr>fl_next = hd (queue ?s'), fl_settings = settings s\<rparr>] else [])
     \<and> terminalEvents ?s' = Suc (terminalEvents s)
     \<and> logs ?s'
         = logs ?s2
           @ (if processing s \<and> queue ?s' \<noteq> []
              then [\<lparr>lid = entropy s (ticks s + 2), level = info,
                     headline = ''Processing: ''
                       @ orElse (title (payload (hd (queue ?s')))) ''Untitled product'',
                     details = Some (''Attempting IndiaMART sync in ''
                                     @ (if mode (settings s) = simulate then ''simulation''
                                        else ''live'')
                                     @ '' mode.''),
                     timestamp = clock s (ticks s + 3)\<rparr>]
              else [])"
  proof (cases "processing s \<and> queue ?s' \<noteq> []")
    case False
    have idle: "\<not> (processing s \<and> queue ?s2 \<noteq> [])"
      using False unfolding q2 .
    have eq: "?s' = ?s2"
      using k idle by (auto simp: completeDispatch_eq commit_def Let_def)
    show ?thesis
      unfolding eq using idle by simp
  next
    case True
    then have busy: "processing s" "queue ?s2 \<noteq> []"
      unfolding q2 by simp_all
    then obtain y ys where ys: "queue ?s2 = y # ys"
      by (cases "queue ?s2") auto
    have r: "processingRef (refsOf ?s2)" "\<not> truthy (activeProductRef (refsOf ?s2))"
      "queueRef (refsOf ?s2) = y # ys"
      using busy ys by simp_all
    have eq: "?s' = processNextProduct (refsOf ?s2) ?s2"
      using k busy ys by (simp add: completeDispatch_eq commit_def Let_def)
    have hd: "hd (queue ?s') = y" "queue ?s' \<noteq> []"
      unfolding q2 ys by simp_all
    have "logs ?s' = logs ?s2
        @ [\<lparr>lid = entropy s (ticks s + 2), level = info,
             headline = ''Processing: '' @ orElse (title (payload y)) ''Untitled product'',
             details = Some (''Attempting IndiaMART sync in ''
                             @ (if mode (settings s) = simulate then ''simulation'' else ''live'')
                             @ '' mode.''),
             timestamp = clock s (ticks s + 3)\<rparr>]"
      unfolding eq pNP_dispatch_eq[OF r] by (simp add: tk ck numeral_3_eq_3)
    moreover have "terminalEvents ?s' = Suc (terminalEvents s)"
      unfolding eq using pNP_dispatch(4)[OF r, of ?s2] by simp
    moreover have "processing ?s' = processing s"
      unfolding eq using pNP_dispatch(1)[OF r, of ?s2] by simp
    moreover have "activeProductId ?s' = Some (pid y)"
      unfolding eq using pNP_dispatch(2)[OF r, of ?s2] by simp
    moreover have "inflight ?s' = take k (inflight s) @ drop (Suc k) (inflight s)
        @ [\<lparr>fl_next = y, fl_settings = settings s\<rparr>]"
      unfolding eq using pNP_dispatch(3)[OF r, of ?s2] by simp
    ultimately show ?thesis
      using busy(1) hd by simp
  qed
  then show "processing ?s' = processing s"
    and "activeProductId ?s'
         = (if processing s \<and> queue ?s' \<noteq> [] then Some (pid (hd (queue ?s'))) else None)"
    and "inflight ?s'
         = take k (inflight s) @ drop (Suc k) (inflight s)
           @ (if processing s \<and> queue ?s' \<noteq> []
              then [\<lparr>fl_next = hd (queue ?s'), fl_settings = settings s\<rparr>] else [])"
    and "terminalEvents ?s' = Suc (terminalEvents s)"
    and "logs ?s'
         = logs ?s2
           @ (if processing s \<and> queue ?s' \<noteq> []
              then [\<lparr>lid = entropy s (ticks s + 2), level = info,
                     headline = ''Processing: ''
                       @ orElse (title (payload (hd (queue ?s')))) ''Untitled product'',
                     details = Some (''Attempting IndiaMART sync in ''
                                     @ (if mode (settings s) = simulate then ''simulation''
                                        else ''live'')
                                     @ '' mode.''),
                     timestamp = clock s (ticks s + 3)\<rparr>]
              else [])"
    by simp_all
qed

text \<open>
  A dispatch takes its item from the queue: what is in flight after an answer or a timer was
  in flight before, or is an item of the queue.
\<close>

lemma inflight_step_environment:
  assumes "environmentEvent e" "f \<in> set (inflight (step e s))"
  shows "f \<in> set (inflight s) \<or> fl_next f \<in> set (queue s)"
proof (cases e)
  case (Complete k t w)
  show ?thesis
  proof (cases "k < length (inflight s)")
    case True
    let ?s' = "completeDispatch k t w s"
    have sub: "set (queue ?s') \<subseteq> set (queue s)"
      using queue_step_environment[of e s] Complete by simp
    have "f \<in> set (take k (inflight s)) \<or> f \<in> set (drop (Suc k) (inflight s))
        \<or> (queue ?s' \<noteq> [] \<and> fl_next f = hd (queue ?s'))"
      using assms(2) Complete completeDispatch_continues(3)[OF True, of t w]
      by (auto split: if_splits)
    moreover have "queue ?s' \<noteq> [] \<Longrightarrow> hd (queue ?s') \<in> set (queue s)"
      using sub hd_in_set[of "queue ?s'"] by blast
    ultimately show ?thesis
      by (auto dest: in_set_takeD in_set_dropD)
  next
    case False
    then show ?thesis using assms(2) Complete by simp
  qed
next
  case TimerFire
  show ?thesis
  proof (cases "timers s \<noteq> 0 \<and> processing s \<and> \<not> truthy (activeProductId s) \<and> queue s \<noteq> []")
    case True
    then obtain x xs where q: "queue s = x # xs"
      by (cases "queue s") auto
    let ?s0 = "s\<lparr>timers := timers s - 1\<rparr>"
    have r: "processingRef (refsOf s)" "\<not> truthy (activeProductRef (refsOf s))"
      "queueRef (refsOf s) = x # xs"
      using True q by simp_all
    have "timerFire s = processNextProduct (refsOf s) ?s0"
      using True pNP_dispatch(1)[OF r, of ?s0] by (simp add: timerFire_def Let_def)
    then have "inflight (timerFire s) = inflight s @ [\<lparr>fl_next = x, fl_settings = settings s\<rparr>]"
      using pNP_dispatch(3)[OF r, of ?s0] by simp
    then show ?thesis
      using assms(2) TimerFire q by auto
  next
    case False
    have "inflight (timerFire s) = inflight s"
    proof (cases "timers s = 0 \<or> \<not> processing s \<or> truthy (activeProductId s)")
      case True
      then show ?thesis by (auto simp: timerFire_def Let_def)
    next
      case other: False
      then have e: "queue s = []" using False by simp
      have r: "processingRef (refsOf s)" "\<not> truthy (activeProductRef (refsOf s))"
        "queueRef (refsOf s) = []"
        using other e by simp_all
      show ?thesis
        using other by (simp add: timerFire_def Let_def pNP_empty[OF r])
    qed
    then show ?thesis
      using assms(2) TimerFire by simp
  qed
qed (use assms(1) in simp_all)

lemma inflight_run_environment:
  "\<forall>e\<in>set es. environmentEvent e \<Longrightarrow> f \<in> set (inflight (run es s)) \<Longrightarrow>
   f \<in> set (inflight s) \<or> fl_next f \<in> set (queue s)"
proof (induction es arbitrary: s)
  case Nil
  then show ?case by simp
next
  case (Cons e es)
  have env: "environmentEvent e" "\<forall>e\<in>set es. environmentEvent e"
    using Cons.prems(1) by simp_all
  have "f \<in> set (inflight (step e s)) \<or> fl_next f \<in> set (queue (step e s))"
    using Cons.IH[OF env(2), of "step e s"] Cons.prems(2) by simp
  then show ?case
    using inflight_step_environment[OF env(1), of f s] queue_step_environment[OF env(1), of s]
    by auto
qed

text \<open>
  One completion with a failure. When the answer to a waiting dispatch is a failure,
  whatever its kind, the completion logs exactly one error event, \<open>Failed:\<close> with the
  item's title and the message, and nothing else but the info event of the next dispatch.
  The runner is not stopped: \<open>processing\<close> is unchanged. Every item with the id of the
  failed one is filtered out of the queue, wherever it stands. \<open>activeProductId\<close> is
  cleared, and if the runner is running and the queue is not empty, the drain continues:
  the new head of the queue is dispatched and becomes the active product. The failed item
  is never retried: whatever answers and timers follow, no item with its id comes back
  into the queue, and a call in flight for that id is one of the other calls that were
  already waiting when the failure arrived, never a new one.
\<close>

theorem failed_dispatch_is_logged_and_skipped:
  assumes k: "k < length (inflight s)"
    and failure: "dispatchOutcome t w (fl_settings (inflight s ! k))
                    (payload (fl_next (inflight s ! k))) = Inl message"
  shows "errorEvents (completeDispatch k t w s) = Suc (errorEvents s)
     \<and> terminalEvents (completeDispatch k t w s) = Suc (terminalEvents s)
     \<and> (\<exists>e rest. logs (completeDispatch k t w s) = logs s @ e # rest
           \<and> level e = error
           \<and> headline e = ''Failed: '' @ orElse (title (payload (fl_next (inflight s ! k))))
                                            ''Untitled product''
           \<and> details e = Some message
           \<and> (\<forall>e'\<in>set rest. level e' = info))
     \<and> processing (completeDispatch k t w s) = processing s
     \<and> queue (completeDispatch k t w s)
         = filter (\<lambda>item. pid item \<noteq> pid (fl_next (inflight s ! k))) (queue s)
     \<and> activeProductId (completeDispatch k t w s)
         = (if processing s \<and> queue (completeDispatch k t w s) \<noteq> []
            then Some (pid (hd (queue (completeDispatch k t w s)))) else None)
     \<and> inflight (completeDispatch k t w s)
         = take k (inflight s) @ drop (Suc k) (inflight s)
           @ (if processing s \<and> queue (completeDispatch k t w s) \<noteq> []
              then [\<lparr>fl_next = hd (queue (completeDispatch k t w s)), fl_settings = settings s\<rparr>]
              else [])
     \<and> (\<forall>es. (\<forall>e\<in>set es. environmentEvent e) \<longrightarrow>
           (\<forall>i\<in>set (queue (run es (completeDispatch k t w s))).
              pid i \<noteq> pid (fl_next (inflight s ! k)))
           \<and> (\<forall>f\<in>set (inflight (run es (completeDispatch k t w s))).
                pid (fl_next f) = pid (fl_next (inflight s ! k)) \<longrightarrow>
                f \<in> set (take k (inflight s) @ drop (Suc k) (inflight s))))"
proof -
  let ?x = "fl_next (inflight s ! k)"
  let ?s2 = "afterOutcome k t w s"
  let ?s' = "completeDispatch k t w s"
  let ?more = "processing s \<and> queue ?s' \<noteq> []"
  have q: "queue ?s' = filter (\<lambda>item. pid item \<noteq> pid ?x) (queue s)"
    using k by (simp add: completeDispatch_queue)
  note lg = completeDispatch_failure[OF k failure]
  note go = completeDispatch_continues[OF k, of t w]
  have gone: "\<forall>i\<in>set (queue ?s'). pid i \<noteq> pid ?x"
    unfolding q by simp
  have never: "\<forall>i\<in>set (queue (run es ?s')). pid i \<noteq> pid ?x"
    if env: "\<forall>e\<in>set es. environmentEvent e" for es
    using queue_run_environment[OF env, of ?s'] gone by auto
  have old: "f \<in> set (take k (inflight s) @ drop (Suc k) (inflight s))"
    if env: "\<forall>e\<in>set es. environmentEvent e"
      and f: "f \<in> set (inflight (run es ?s'))" "pid (fl_next f) = pid ?x" for es f
  proof -
    have "f \<in> set (inflight ?s')"
      using inflight_run_environment[OF env f(1)] gone f(2) by auto
    moreover have "?more \<Longrightarrow> pid (hd (queue ?s')) \<noteq> pid ?x"
      using gone hd_in_set[of "queue ?s'"] by blast
    ultimately show ?thesis
      using f(2) unfolding go(3) by (auto split: if_splits)
  qed
  have errors: "errorEvents ?s' = Suc (errorEvents s)"
    using lg(2) unfolding errorEvents_def countLogs_def go(5) by simp
  have entry: "\<exists>e rest. logs ?s' = logs s @ e # rest
           \<and> level e = error
           \<and> headline e = ''Failed: '' @ orElse (title (payload ?x)) ''Untitled product''
           \<and> details e = Some message
           \<and> (\<forall>e'\<in>set rest. level e' = info)"
  proof (intro exI conjI)
    show "logs ?s' = logs s
        @ \<lparr>lid = entropy s (ticks s), level = error,
             headline = ''Failed: '' @ orElse (title (payload ?x)) ''Untitled product'',
             details = Some message, timestamp = clock s (Suc (ticks s))\<rparr>
        # (if ?more
           then [\<lparr>lid = entropy s (ticks s + 2), level = info,
                  headline = ''Processing: ''
                    @ orElse (title (payload (hd (queue ?s')))) ''Untitled product'',
                  details = Some (''Attempting IndiaMART sync in ''
                                  @ (if mode (settings s) = simulate then ''simulation''
                                     else ''live'')
                                  @ '' mode.''),
                  timestamp = clock s (ticks s + 3)\<rparr>]
           else [])"
      unfolding go(5) lg(1) by simp
  qed simp_all
  show ?thesis
    using errors go(4) entry go(1) q go(2) go(3) never old by blast
qed


theorem failed_dispatch_is_logged_and_skipped_witness:
  "errorEvents (completeDispatch 0 delivered remoteDown drainingTwo) = Suc (errorEvents drainingTwo)
   \<and> processing (completeDispatch 0 delivered remoteDown drainingTwo) = processing drainingTwo
   \<and> (\<exists>e rest. logs (completeDispatch 0 delivered remoteDown drainingTwo)
                  = logs drainingTwo @ e # rest
        \<and> level e = error \<and> headline e = ''Failed: Bolt''
        \<and> details e = Some ''Missing required product fields: description, shortDescription'')
   \<and> map (\<lambda>i. title (payload i)) (queue (completeDispatch 0 delivered remoteDown drainingTwo))
       = [''Copper wire'']
   \<and> map (\<lambda>f. title (payload (fl_next f)))
        (inflight (completeDispatch 0 delivered remoteDown drainingTwo)) = [''Copper wire'']"
proof -
  have one: "length (inflight drainingTwo) = 1"
    using arg_cong[OF drainingTwo_inflight, of length] by simp
  then have k: "0 < length (inflight drainingTwo)"
    by simp
  have name: "title (payload (fl_next (inflight drainingTwo ! 0))) = ''Bolt''"
    using arg_cong[OF drainingTwo_inflight, of "\<lambda>xs. fst (xs ! 0)"] one by simp
  note t = failed_dispatch_is_logged_and_skipped[OF k drainingTwo_outcome]
  have "\<exists>e rest. logs (completeDispatch 0 delivered remoteDown drainingTwo)
                  = logs drainingTwo @ e # rest
        \<and> level e = error \<and> headline e = ''Failed: Bolt''
        \<and> details e = Some ''Missing required product fields: description, shortDescription''"
    using t unfolding name orElse_def by auto
  then show ?thesis
    using t drainingTwo_after by blast
qed

text \<open>
  Claim C2. A failed item should be logged as exactly one error event. In the default
  configuration, auto-start on, it is logged twice. The operator submits one draft on the
  idle console: the render that follows has both \<open>processing\<close> and \<open>queue\<close> changed,
  so both effects of lines 316-329 run, each on refs in which no product is active yet, and
  each calls \<open>processNextProduct\<close>, whose guard on \<open>activeProductRef\<close> (lines
  248-250) lets both through. One item is queued and two calls are in flight for it; when
  both answers are failures, the log holds two error events for the one item. This is so
  for a validation failure (a draft without descriptions), for a network failure (the
  browser's call throws) and for a remote rejection (live mode, the remote API answers
  403).
\<close>

theorem failed_item_logged_twice:
  "length (queue (run (submitDraft boltDraft) initialState)) = 1
   \<and> map (\<lambda>f. title (payload (fl_next f))) (inflight (run (submitDraft boltDraft) initialState))
       = [''Bolt'', ''Bolt'']
   \<and> map (\<lambda>e. (headline e, details e))
       (filter (\<lambda>e. level e = error)
          (logs (run (submitDraft boltDraft
                      @ [Complete 0 delivered remoteDown, Complete 0 delivered remoteDown])
                   initialState)))
       = [(''Failed: Bolt'', Some ''Missing required product fields: description, shortDescription''),
          (''Failed: Bolt'', Some ''Missing required product fields: description, shortDescription'')]
   \<and> map (\<lambda>e. (headline e, details e))
       (filter (\<lambda>e. level e = error)
          (logs (run (submitDraft sampleDraft
                      @ [Complete 0 (failed (ErrorObject ''offline'')) remoteDown,
                         Complete 0 (failed (ErrorObject ''offline'')) remoteDown])
                   initialState)))
       = [(''Failed: Copper wire'', Some ''offline''), (''Failed: Copper wire'', Some ''offline'')]
   \<and> map (\<lambda>e. (headline e, details e))
       (filter (\<lambda>e. level e = error)
          (logs (run (submitDraft sampleDraft
                      @ [Complete 0 delivered remoteRejects, Complete 0 delivered remoteRejects])
                   liveState)))
       = [(''Failed: Copper wire'', Some ''IndiaMART API returned an error.''),
          (''Failed: Copper wire'', Some ''IndiaMART API returned an error.'')]"
proof -
  have queued: "length (queue (run (submitDraft boltDraft) initialState)) = 1
     \<and> map (\<lambda>f. title (payload (fl_next f))) (inflight (run (submitDraft boltDraft) initialState))
         = [''Bolt'', ''Bolt'']"
    by code_simp
  have validation: "map (\<lambda>e. (headline e, details e))
       (filter (\<lambda>e. level e = error)
          (logs (run (submitDraft boltDraft
                      @ [Complete 0 delivered remoteDown, Complete 0 delivered remoteDown])
                   initialState)))
       = [(''Failed: Bolt'', Some ''Missing required product fields: description, shortDescription''),
          (''Failed: Bolt'', Some ''Missing required product fields: description, shortDescription'')]"
    by code_simp
  have network: "map (\<lambda>e. (headline e, details e))
       (filter (\<lambda>e. level e = error)
          (logs (run (submitDraft sampleDraft
                      @ [Complete 0 (failed (ErrorObject ''offline'')) remoteDown,
                         Complete 0 (failed (ErrorObject ''offline'')) remoteDown])
                   initialState)))
       = [(''Failed: Copper wire'', Some ''offline''), (''Failed: Copper wire'', Some ''offline'')]"
    by code_simp
  have rejection: "map (\<lambda>e. (headline e, details e))
       (filter (\<lambda>e. level e = error)
          (logs (run (submitDraft sampleDraft
                      @ [Complete 0 delivered remoteRejects, Complete 0 delivered remoteRejects])
                   liveState)))
       = [(''Failed: Copper wire'', Some ''IndiaMART API returned an error.''),
          (''Failed: Copper wire'', Some ''IndiaMART API returned an error.'')]"
    by code_simp
  show ?thesis
    using queued validation network rejection by blast
qed

lemma pausedMidDrain_idle: "\<not> processing pausedMidDrain"
  unfolding pausedMidDrain_def by simp

lemma pausedMidDrain_state:
  "map (\<lambda>i. title (payload i)) (queue pausedMidDrain) = [''Copper wire'', ''Bolt'']
   \<and> ''Processing: Bolt'' \<notin> set (map headline (logs pausedMidDrain))"
  unfolding pausedMidDrain_def by code_simp

lemma pausedMidDrain_resumed:
  "processing
     (run ([Complete 0 delivered remoteDown, Complete 0 delivered remoteDown] @ submitDraft nutDraft)
        pausedMidDrain)
   \<and> ''Processing: Bolt''
       \<in> set (map headline
                (logs (run ([Complete 0 delivered remoteDown, Complete 0 delivered remoteDown]
                            @ submitDraft nutDraft) pausedMidDrain)))"
  unfolding pausedMidDrain_def by code_simp

text \<open>
  Claim C4, as stated, fails: after stop, a next item can begin dispatching although start
  is not called again. With auto-start on, two drafts are queued and the agent is stopped
  while the first is in flight; \<open>Bolt\<close> waits, and no dispatch of it has begun. The
  answers arrive, then a third draft is submitted: \<open>addToQueue\<close> turns \<open>processing\<close>
  on, and the dispatch of \<open>Bolt\<close> begins. The events after the stop hold no start.
\<close>

theorem enqueue_restarts_after_stop:
  "\<not> processing pausedMidDrain
   \<and> map (\<lambda>i. title (payload i)) (queue pausedMidDrain) = [''Copper wire'', ''Bolt'']
   \<and> ''Processing: Bolt'' \<notin> set (map headline (logs pausedMidDrain))
   \<and> Start \<notin> set ([Complete 0 delivered remoteDown, Complete 0 delivered remoteDown]
                    @ submitDraft nutDraft)
   \<and> processing
       (run ([Complete 0 delivered remoteDown, Complete 0 delivered remoteDown] @ submitDraft nutDraft)
          pausedMidDrain)
   \<and> ''Processing: Bolt''
       \<in> set (map headline
                (logs (run ([Complete 0 delivered remoteDown, Complete 0 delivered remoteDown]
                            @ submitDraft nutDraft) pausedMidDrain)))"
proof -
  have "Start \<notin> set ([Complete 0 delivered remoteDown, Complete 0 delivered remoteDown]
                    @ submitDraft nutDraft)"
    by (simp add: submitDraft_def)
  then show ?thesis
    using pausedMidDrain_idle pausedMidDrain_state pausedMidDrain_resumed by blast
qed

text \<open>
  Claim C4, amended. Stop makes the runner idle whatever its state, clears
  \<open>activeProductId\<close> and logs the info event \<open>Agent paused\<close>; the waiting dispatches
  stay in flight, and the queue is unchanged. After it, as long as the runner is not
  started again, by start or by an enqueue while auto-start is on, the runner stays idle and
  no dispatch begins; and the answer to any dispatch still in flight is logged when it
  arrives, as one success or error event for its item.
\<close>

theorem stop_holds_the_queue:
  "\<not> processing (stopAgent s) \<and> activeProductId (stopAgent s) = None
   \<and> inflight (stopAgent s) = inflight s \<and> queue (stopAgent s) = queue s
   \<and> (\<exists>e. logs (stopAgent s) = logs s @ [e] \<and> level e = info \<and> headline e = ''Agent paused'')
   \<and> ((\<forall>e\<in>set es. \<not> mayRestart (autoStart (settings s)) e) \<longrightarrow>
        \<not> processing (run es (stopAgent s))
        \<and> dispatchesBegun (run es (stopAgent s)) = dispatchesBegun s
        \<and> (\<forall>k t w. k < length (inflight (run es (stopAgent s))) \<longrightarrow>
             (\<exists>e. logs (completeDispatch k t w (run es (stopAgent s)))
                     = logs (run es (stopAgent s)) @ [e]
                  \<and> (level e = success \<or> level e = error)
                  \<and> headline e = (if level e = error then ''Failed: '' else ''Uploaded: '')
                       @ orElse (title (payload (fl_next (inflight (run es (stopAgent s)) ! k))))
                           ''Untitled product'')))"
proof -
  have stop: "\<not> processing (stopAgent s) \<and> activeProductId (stopAgent s) = None
      \<and> inflight (stopAgent s) = inflight s \<and> queue (stopAgent s) = queue s"
    by simp
  have paused: "\<exists>e. logs (stopAgent s) = logs s @ [e] \<and> level e = info \<and> headline e = ''Agent paused''"
    by (simp add: stopAgent_def)
  have held: "\<not> processing (run es (stopAgent s))
        \<and> dispatchesBegun (run es (stopAgent s)) = dispatchesBegun s
        \<and> (\<forall>k t w. k < length (inflight (run es (stopAgent s))) \<longrightarrow>
             (\<exists>e. logs (completeDispatch k t w (run es (stopAgent s)))
                     = logs (run es (stopAgent s)) @ [e]
                  \<and> (level e = success \<or> level e = error)
                  \<and> headline e = (if level e = error then ''Failed: '' else ''Uploaded: '')
                       @ orElse (title (payload (fl_next (inflight (run es (stopAgent s)) ! k))))
                           ''Untitled product''))"
    if quiet: "\<forall>e\<in>set es. \<not> mayRestart (autoStart (settings s)) e"
  proof -
    have idle: "\<not> processing (run es (stopAgent s))"
      and none: "dispatchesBegun (run es (stopAgent s)) = dispatchesBegun (stopAgent s)"
      using idle_run[of "stopAgent s" es] quiet by simp_all
    have "dispatchesBegun (stopAgent s) = dispatchesBegun s"
      by (simp add: dispatchesBegun_def)
    then show ?thesis
      using idle none completeDispatch_logs_idle[OF idle] by simp
  qed
  show ?thesis
    using stop paused held by blast
qed

theorem stop_holds_the_queue_witness:
  "\<not> processing (run [TimerFire] (stopAgent drainingTwo))
   \<and> dispatchesBegun (run [TimerFire] (stopAgent drainingTwo)) = dispatchesBegun drainingTwo
   \<and> (\<exists>e. logs (completeDispatch 0 delivered remoteDown (run [TimerFire] (stopAgent drainingTwo)))
             = logs (run [TimerFire] (stopAgent drainingTwo)) @ [e]
          \<and> (level e = success \<or> level e = error)
          \<and> headline e = (if level e = error then ''Failed: '' else ''Uploaded: '') @ ''Bolt'')"
proof -
  let ?s = "run [TimerFire] (stopAgent drainingTwo)"
  have quiet: "\<forall>e\<in>set [TimerFire]. \<not> mayRestart (autoStart (settings drainingTwo)) e"
    by simp
  have same: "inflight ?s = inflight drainingTwo"
    using timerFire_idle(3)[of "stopAgent drainingTwo"] by simp
  have one: "length (inflight drainingTwo) = 1"
    using arg_cong[OF drainingTwo_inflight, of length] by simp
  have name: "orElse (title (payload (fl_next (inflight ?s ! 0)))) ''Untitled product'' = ''Bolt''"
    unfolding same
    using arg_cong[OF drainingTwo_inflight, of "\<lambda>xs. fst (xs ! 0)"] one by (simp add: orElse_def)
  have k: "0 < length (inflight ?s)"
    unfolding same using one by simp
  note t = stop_holds_the_queue[of drainingTwo "[TimerFire]"]
  have held: "\<not> processing ?s \<and> dispatchesBegun ?s = dispatchesBegun drainingTwo"
    using t quiet by blast
  have "\<exists>e. logs (completeDispatch 0 delivered remoteDown ?s) = logs ?s @ [e]
          \<and> (level e = success \<or> level e = error)
          \<and> headline e = (if level e = error then ''Failed: '' else ''Uploaded: '')
                @ orElse (title (payload (fl_next (inflight ?s ! 0)))) ''Untitled product''"
    using t quiet k by blast
  then show ?thesis
    unfolding name using held by blast
qed

text \<open>
  With auto-start on, an enqueue on an idle console turns \<open>processing\<close> on and sets the
  queue in one render. Both effects then run on refs in which no product is active yet,
  and each starts a dispatch of the same head of the queue.
\<close>

theorem autoStart_dispatches_twice:
  assumes "\<not> processing s" "activeProductId s = None" "autoStart (settings s)"
    and "title (draft s) \<noteq> []"
  shows "processing (handleAddDraftToQueue s)
     \<and> inflight (handleAddDraftToQueue s)
         = inflight s
           @ [\<lparr>fl_next = hd (queue (handleAddDraftToQueue s)), fl_settings = settings s\<rparr>,
              \<lparr>fl_next = hd (queue (handleAddDraftToQueue s)), fl_settings = settings s\<rparr>]
     \<and> dispatchesBegun (handleAddDraftToQueue s) = dispatchesBegun s + 2"
proof -
  let ?s3 = "resetDraft (addToQueue (refsOf s) (draft s) s)"
  obtain x xs where q: "queue ?s3 = x # xs"
    by (cases "queue ?s3") (simp_all add: resetDraft_def)
  have on: "processing ?s3" "activeProductId ?s3 = None" "inflight ?s3 = inflight s"
    "settings ?s3 = settings s"
    "dispatchesBegun ?s3 = dispatchesBegun s"
    using assms by (simp_all add: resetDraft_def dispatchesBegun_def)
  have r: "processingRef (refsOf ?s3)" "\<not> truthy (activeProductRef (refsOf ?s3))"
    "queueRef (refsOf ?s3) = x # xs"
    using on q by simp_all
  let ?s4 = "processNextProduct (refsOf ?s3) ?s3"
  have eq: "handleAddDraftToQueue s = processNextProduct (refsOf ?s3) ?s4"
    using assms on r by (simp add: handleAddDraftToQueue_def commit_def Let_def)
  have hd: "hd (queue (handleAddDraftToQueue s)) = x"
    unfolding eq by (simp add: q)
  show ?thesis
    unfolding hd unfolding eq
    using pNP_dispatch(1,3,7)[OF r, of ?s4] pNP_dispatch(1,3,7)[OF r, of ?s3] on
    by simp
qed

theorem autoStart_dispatches_twice_witness:
  "processing (handleAddDraftToQueue (initialState\<lparr>draft := boltDraft\<rparr>))
   \<and> map (\<lambda>f. title (payload (fl_next f)))
        (inflight (handleAddDraftToQueue (initialState\<lparr>draft := boltDraft\<rparr>))) = [''Bolt'', ''Bolt'']"
proof -
  let ?s = "initialState\<lparr>draft := boltDraft\<rparr>"
  have a: "\<not> processing ?s" "activeProductId ?s = None" "autoStart (settings ?s)"
    "title (draft ?s) \<noteq> []" "inflight ?s = []"
    by (simp_all add: initialState_def defaultSettings_def boltDraft_def)
  have q: "queue (handleAddDraftToQueue ?s)
      = queue ?s @ [\<lparr>pid = entropy ?s (ticks ?s), createdAt = clock ?s (Suc (ticks ?s)),
                      payload = draft ?s\<rparr>]"
    using handleAddDraftToQueue_titled(1)[OF a(4)] .
  note t = autoStart_dispatches_twice[OF a(1-4)]
  show ?thesis
    using t unfolding q a(5) by (simp add: initialState_def boltDraft_def)
qed

end
